theory Spec2Isabelle
  imports Complex_Main "HOL-Library.Sublist"
begin

unbundle bit_operations_syntax

section \<open>Data model of \<open>client/dbclient_rs.cpp\<close>\<close>

text \<open>
  A host address is kept in its canonical form; the conversion \<open>HostAndPort(string)\<close> is
  declared outside this file and is a parameter of the model (field \<open>hp\<close> of the
  environment below). A \<open>DBClientConnection*\<close> is the identity of a connection object
  (\<open>None\<close> where a pointer may be null).
\<close>

type_synonym HostAndPort = string

type_synonym DBClientConnection = nat

text \<open>
  Exceptions are values of the model. \<open>UserException\<close> is what \<open>uassert\<close> throws (code
  and message); \<open>BSONTypeException\<close> is the assertion of a checked BSON accessor
  (\<open>String()\<close>, \<open>Number()\<close>, \<open>Obj()\<close>); \<open>SocketException\<close> stands for the other subclasses
  of \<open>DBException\<close> a connection throws; \<open>StdException\<close> is a \<open>std::exception\<close> that is
  no \<open>DBException\<close>.
\<close>

datatype exn =
    UserException nat string
  | BSONTypeException
  | SocketException
  | StdException

fun isDBException :: "exn \<Rightarrow> bool" where
  "isDBException StdException = False"
| "isDBException _ = True"

text \<open>
  Undefined behaviour of the C++ (a modulus by zero, a vector read out of range, a null
  pointer dereferenced) is a value too: a call ends by returning, by throwing or in a
  fault, and no \<open>catch\<close> stops a fault.
\<close>

datatype fault = DivByZero | OutOfBounds | NullDeref

datatype failure = Throw exn | Fault fault

fun caughtDBException :: "failure \<Rightarrow> bool" where
  "caughtDBException (Throw e) = isDBException e"
| "caughtDBException (Fault f) = False"

text \<open>
  BSON values as far as this file inspects them. \<open>Number()\<close> yields a double that is only
  compared with 1 and 2, so a number is a real.
\<close>

datatype BSONElement =
    EOO
  | BString string
  | BNumber real
  | BBool bool
  | BArray "BSONElement list"
  | BObject "(string \<times> BSONElement) list"

text \<open>
  \<open>obj[name]\<close>: the first field of that name, \<open>EOO\<close> when there is none. The elements of
  an array are fields named by their index; this file asks only for alphabetic names.
\<close>

fun getField :: "BSONElement \<Rightarrow> string \<Rightarrow> BSONElement" where
  "getField (BObject fs) n = (case map_of fs n of Some v \<Rightarrow> v | None \<Rightarrow> EOO)"
| "getField _ n = EOO"

definition hasField :: "BSONElement \<Rightarrow> string \<Rightarrow> bool" where
  "hasField obj n = (getField obj n \<noteq> EOO)"

fun isArray :: "BSONElement \<Rightarrow> bool" where
  "isArray (BArray _) = True"
| "isArray _ = False"

fun isString :: "BSONElement \<Rightarrow> bool" where
  "isString (BString _) = True"
| "isString _ = False"

fun String_of :: "BSONElement \<Rightarrow> exn + string" where
  "String_of (BString s) = Inr s"
| "String_of _ = Inl BSONTypeException"

fun Number_of :: "BSONElement \<Rightarrow> exn + real" where
  "Number_of (BNumber x) = Inr x"
| "Number_of _ = Inl BSONTypeException"

fun Obj_of :: "BSONElement \<Rightarrow> exn + BSONElement" where
  "Obj_of (BObject fs) = Inr (BObject fs)"
| "Obj_of (BArray xs) = Inr (BArray xs)"
| "Obj_of _ = Inl BSONTypeException"

text \<open>The elements a \<open>BSONObjIterator\<close> walks through.\<close>

fun elems :: "BSONElement \<Rightarrow> BSONElement list" where
  "elems (BArray xs) = xs"
| "elems (BObject fs) = map snd fs"
| "elems _ = []"

record AuthInfo =
  dbname :: string
  username :: string
  pwd :: string
  digestPassword :: bool

datatype opkind = Query | FindOne

text \<open>The log statements of the file, by their place.\<close>

datatype logline =
    SeedConnectError HostAndPort
  | UpdatedSet
  | CheckConnectionReply DBClientConnection
  | CheckConnectionCaught DBClientConnection
  | CheckStart
  | CachedAuthFailed AuthInfo
  | CantQuerySlave HostAndPort

text \<open>
  Everything the code does to the world outside its own fields is an event of a trace, in
  the order it happens.
\<close>

datatype event =
    NewConn DBClientConnection
  | Connect DBClientConnection HostAndPort
  | ConnectThrowing DBClientConnection HostAndPort
  | IsMaster DBClientConnection
  | ReplSetGetStatus DBClientConnection
  | Hook "HostAndPort list"
  | Log logline
  | Sleep nat
  | Rand
  | IsFailed DBClientConnection
  | Auth DBClientConnection AuthInfo
  | Op opkind DBClientConnection

record Node =
  addr :: HostAndPort
  conn :: DBClientConnection
  ok :: bool

text \<open>
  A \<open>ReplicaSetMonitor\<close>: \<open>_name\<close>, \<open>_nodes\<close>, \<open>_master\<close>, whether the static \<open>_hook\<close> is
  set, and the world the monitor acts on: the trace so far and the next fresh connection
  object.
\<close>

record ReplicaSetMonitor =
  set_name :: string
  nodes :: "Node list"
  master :: int
  hook :: bool
  trace :: "event list"
  next_conn :: nat

text \<open>
  A \<open>DBClientReplicaSet\<close> extends its \<open>_monitor\<close> with \<open>_master\<close>, \<open>_masterHost\<close>,
  \<open>_slave\<close>, \<open>_slaveHost\<close> and \<open>_auths\<close>.
\<close>

record DBClientReplicaSet = ReplicaSetMonitor +
  cl_master :: "DBClientConnection option"
  masterHost :: HostAndPort
  cl_slave :: "DBClientConnection option"
  slaveHost :: HostAndPort
  auths :: "AuthInfo list"

text \<open>
  The environment: what the connections, \<open>rand()\<close> and the declarations outside this file
  answer. Each answer may depend on the moment it is asked (the number of events so far),
  so any run of the network is some environment.
\<close>

record env =
  hp :: "string \<Rightarrow> HostAndPort"
  connect_r :: "nat \<Rightarrow> DBClientConnection \<Rightarrow> HostAndPort \<Rightarrow> bool"
  connect_throwing_r :: "nat \<Rightarrow> DBClientConnection \<Rightarrow> HostAndPort \<Rightarrow> exn option"
  isMaster_r :: "nat \<Rightarrow> DBClientConnection \<Rightarrow> exn + bool \<times> BSONElement"
  replSetGetStatus_r :: "nat \<Rightarrow> DBClientConnection \<Rightarrow> exn + bool \<times> BSONElement"
  rand_r :: "nat \<Rightarrow> nat"
  isFailed_r :: "nat \<Rightarrow> DBClientConnection \<Rightarrow> bool"
  auth_r :: "nat \<Rightarrow> DBClientConnection \<Rightarrow> AuthInfo \<Rightarrow> bool"
  op_r :: "nat \<Rightarrow> opkind \<Rightarrow> DBClientConnection \<Rightarrow> exn + BSONElement"
  QueryOption_SlaveOk :: int

definition now :: "'a ReplicaSetMonitor_scheme \<Rightarrow> nat" where
  "now s = length (trace s)"

definition emit :: "event \<Rightarrow> 'a ReplicaSetMonitor_scheme \<Rightarrow> 'a ReplicaSetMonitor_scheme" where
  "emit e s = s\<lparr>trace := trace s @ [e]\<rparr>"

section \<open>ReplicaSetMonitor\<close>

subsection \<open>\<open>_find\<close>\<close>

fun find_from :: "Node list \<Rightarrow> HostAndPort \<Rightarrow> nat \<Rightarrow> int" where
  "find_from [] server i = -1"
| "find_from (n # ns) server i = (if addr n = server then int i else find_from ns server (Suc i))"

definition priv_find :: "'a ReplicaSetMonitor_scheme \<Rightarrow> HostAndPort \<Rightarrow> int" where
  "priv_find s server = find_from (nodes s) server 0"

text \<open>The overload taking a string compares each address with the converted string.\<close>

definition priv_find_string :: "env \<Rightarrow> 'a ReplicaSetMonitor_scheme \<Rightarrow> string \<Rightarrow> int" where
  "priv_find_string E s server = priv_find s (hp E server)"

subsection \<open>\<open>notifyFailure\<close>, \<open>notifySlaveFailure\<close>\<close>

definition set_ok :: "nat \<Rightarrow> bool \<Rightarrow> 'a ReplicaSetMonitor_scheme \<Rightarrow> 'a ReplicaSetMonitor_scheme" where
  "set_ok i b s = s\<lparr>nodes := (nodes s)[i := (nodes s ! i)\<lparr>ok := b\<rparr>]\<rparr>"

definition notifySlaveFailure ::
  "HostAndPort \<Rightarrow> 'a ReplicaSetMonitor_scheme \<Rightarrow> 'a ReplicaSetMonitor_scheme" where
  "notifySlaveFailure server s =
     (let x = priv_find s server in if x \<ge> 0 then set_ok (nat x) False s else s)"

subsection \<open>\<open>getSlave\<close>\<close>

text \<open>Line 161: \<open>int x = rand() % _nodes.size()\<close>.\<close>

definition getSlave_offset :: "nat \<Rightarrow> nat \<Rightarrow> fault + nat" where
  "getSlave_offset r n = (if n = 0 then Inl DivByZero else Inr (r mod n))"

text \<open>Lines 164 to 170: the loop over \<open>i\<close>, here over the list of the values of \<open>i\<close>.\<close>

fun getSlave_scan :: "Node list \<Rightarrow> int \<Rightarrow> nat \<Rightarrow> nat list \<Rightarrow> HostAndPort option" where
  "getSlave_scan ns m x [] = None"
| "getSlave_scan ns m x (i # is) =
     (let p = (i + x) mod length ns in
      if int p = m then getSlave_scan ns m x is
      else if ok (ns ! p) then Some (addr (ns ! p))
      else getSlave_scan ns m x is)"

text \<open>Line 173: \<open>return _nodes[0].addr\<close>.\<close>

definition getSlave_fallback :: "Node list \<Rightarrow> fault + HostAndPort" where
  "getSlave_fallback ns = (case ns of [] \<Rightarrow> Inl OutOfBounds | n # _ \<Rightarrow> Inr (addr n))"

definition getSlave ::
  "env \<Rightarrow> 'a ReplicaSetMonitor_scheme \<Rightarrow> (fault + HostAndPort) \<times> 'a ReplicaSetMonitor_scheme" where
  "getSlave E s =
     (let r = rand_r E (now s); s1 = emit Rand s in
      case getSlave_offset r (length (nodes s1)) of
        Inl f \<Rightarrow> (Inl f, s1)
      | Inr x \<Rightarrow>
          (case getSlave_scan (nodes s1) (master s1) x [0..<length (nodes s1)] of
             Some a \<Rightarrow> (Inr a, s1)
           | None \<Rightarrow> (getSlave_fallback (nodes s1), s1)))"

subsection \<open>\<open>_checkStatus\<close>\<close>

text \<open>
  The loop over the members. An accessor that throws ends the loop with the exception;
  the flags written before it stay written.
\<close>

fun checkStatus_members ::
  "env \<Rightarrow> BSONElement list \<Rightarrow> 'a ReplicaSetMonitor_scheme \<Rightarrow>
   exn option \<times> 'a ReplicaSetMonitor_scheme" where
  "checkStatus_members E [] s = (None, s)"
| "checkStatus_members E (e # es) s =
     (case Obj_of e of
        Inl x \<Rightarrow> (Some x, s)
      | Inr member \<Rightarrow>
     (case String_of (getField member ''name'') of
        Inl x \<Rightarrow> (Some x, s)
      | Inr host \<Rightarrow>
     (let m = priv_find_string E s host in
      if m \<le> 0 then checkStatus_members E es s
      else
     (case Number_of (getField member ''state'') of
        Inl x \<Rightarrow> (Some x, s)
      | Inr state \<Rightarrow>
     (case Number_of (getField member ''health'') of
        Inl x \<Rightarrow> (Some x, s)
      | Inr health \<Rightarrow>
          if health = 1 \<and> (state = 1 \<or> state = 2)
          then checkStatus_members E es (set_ok (nat m) True s)
          else checkStatus_members E es (set_ok (nat m) False s))))))"

definition priv_checkStatus ::
  "env \<Rightarrow> DBClientConnection \<Rightarrow> 'a ReplicaSetMonitor_scheme \<Rightarrow>
   exn option \<times> 'a ReplicaSetMonitor_scheme" where
  "priv_checkStatus E c s =
     (case replSetGetStatus_r E (now s) c of
        Inl x \<Rightarrow> (Some x, emit (ReplSetGetStatus c) s)
      | Inr (cmd_ok, status) \<Rightarrow>
          (let s1 = emit (ReplSetGetStatus c) s in
           if \<not> cmd_ok \<or> \<not> hasField status ''members''
              \<or> \<not> isArray (getField status ''members'')
           then (None, s1)
           else checkStatus_members E (elems (getField status ''members'')) s1))"

subsection \<open>\<open>_checkHosts\<close>\<close>

text \<open>
  \<open>changed\<close> is a reference of the caller's: what was written to it before an exception
  stays written, so it is returned beside the exception.
\<close>

fun priv_checkHosts ::
  "env \<Rightarrow> BSONElement list \<Rightarrow> bool \<Rightarrow> 'a ReplicaSetMonitor_scheme \<Rightarrow>
   exn option \<times> bool \<times> 'a ReplicaSetMonitor_scheme" where
  "priv_checkHosts E [] changed s = (None, changed, s)"
| "priv_checkHosts E (e # es) changed s =
     (case String_of e of
        Inl x \<Rightarrow> (Some x, changed, s)
      | Inr toCheck \<Rightarrow>
          if priv_find_string E s toCheck \<ge> 0 then priv_checkHosts E es changed s
          else
            (let h = hp E toCheck;
                 newConn = next_conn s;
                 s1 = emit (NewConn newConn) (s\<lparr>next_conn := Suc newConn\<rparr>);
                 s2 = emit (Connect newConn h) s1;
                 s3 = s2\<lparr>nodes := nodes s2 @ [\<lparr>addr = h, conn = newConn, ok = True\<rparr>]\<rparr>;
                 s4 = emit (Log UpdatedSet) s3
             in priv_checkHosts E es True s4))"

subsection \<open>\<open>_checkConnection\<close>\<close>

text \<open>
  The \<open>try\<close> block, lines 243 to 260. It yields \<open>isMaster\<close>, \<open>changed\<close>, the
  \<open>maybePrimary\<close> that line 249 declares inside the block, and the exception that left the
  block, if any.
\<close>

definition checkConnection_try ::
  "env \<Rightarrow> DBClientConnection \<Rightarrow> 'a ReplicaSetMonitor_scheme \<Rightarrow>
   (bool \<times> bool \<times> string \<times> exn option) \<times> 'a ReplicaSetMonitor_scheme" where
  "checkConnection_try E c s =
     (case isMaster_r E (now s) c of
        Inl x \<Rightarrow> ((False, False, [], Some x), emit (IsMaster c) s)
      | Inr (isMaster, obj) \<Rightarrow>
          (let s1 = emit (Log (CheckConnectionReply c)) (emit (IsMaster c) s);
               block_maybePrimary =
                 (if isArray (getField obj ''hosts'') then
                    (case getField obj ''primary'' of BString p \<Rightarrow> p | _ \<Rightarrow> [])
                  else []);
               (x1, changed1, s2) =
                 (if isArray (getField obj ''hosts'')
                  then priv_checkHosts E (elems (getField obj ''hosts'')) False s1
                  else (None, False, s1))
           in case x1 of
                Some x \<Rightarrow> ((isMaster, changed1, block_maybePrimary, Some x), s2)
              | None \<Rightarrow>
                  (let (x2, changed2, s3) =
                         (if hasField obj ''passives'' \<and> isArray (getField obj ''passives'')
                          then priv_checkHosts E (elems (getField obj ''passives'')) changed1 s2
                          else (None, changed1, s2))
                   in case x2 of
                        Some x \<Rightarrow> ((isMaster, changed2, block_maybePrimary, Some x), s3)
                      | None \<Rightarrow>
                          (let (x3, s4) = priv_checkStatus E c s3
                           in ((isMaster, changed2, block_maybePrimary, x3), s4)))))"

text \<open>
  The whole function. The parameter \<open>maybePrimary\<close> is a reference of the caller's; the
  block assigns to its own variable of that name, so the caller's string comes back as
  it went in.
\<close>

definition priv_checkConnection ::
  "env \<Rightarrow> DBClientConnection \<Rightarrow> string \<Rightarrow> bool \<Rightarrow> 'a ReplicaSetMonitor_scheme \<Rightarrow>
   bool \<times> string \<times> 'a ReplicaSetMonitor_scheme" where
  "priv_checkConnection E c maybePrimary verbose s =
     (let ((isMaster, changed, block_maybePrimary, x), s1) = checkConnection_try E c s;
          s2 = (case x of Some e \<Rightarrow> emit (Log (CheckConnectionCaught c)) s1 | None \<Rightarrow> s1);
          s3 = (if changed \<and> hook s2 then emit (Hook (map addr (nodes s2))) s2 else s2)
      in (isMaster, maybePrimary, s3))"

subsection \<open>\<open>_check\<close>\<close>

text \<open>
  One round: the loop over \<open>i\<close>, from \<open>i\<close> on. The table may grow while the loop runs, at
  every step if the replies keep naming new hosts, so the loop has fuel and \<open>None\<close> is a
  loop that has not ended within it. The result says whether \<open>_check\<close> has returned
  from inside the loop, and carries \<open>triedQuickCheck\<close>.
\<close>

fun check_round ::
  "env \<Rightarrow> nat \<Rightarrow> bool \<Rightarrow> nat \<Rightarrow> bool \<Rightarrow> 'a ReplicaSetMonitor_scheme \<Rightarrow>
   (bool \<times> bool \<times> 'a ReplicaSetMonitor_scheme) option" where
  "check_round E 0 retry i triedQuickCheck s = None"
| "check_round E (Suc fuel) retry i triedQuickCheck s =
     (if i < length (nodes s) then
        (let c = conn (nodes s ! i);
             (isMaster, maybePrimary, s1) = priv_checkConnection E c [] retry s
         in if isMaster then Some (True, triedQuickCheck, s1\<lparr>master := int i\<rparr>)
            else if \<not> triedQuickCheck \<and> maybePrimary \<noteq> [] then
              (let x = priv_find_string E s1 maybePrimary in
               if x \<ge> 0 then
                 (let testConn = conn (nodes s1 ! nat x);
                      (isMaster2, dummy, s2) = priv_checkConnection E testConn [] False s1
                  in if isMaster2 then Some (True, True, s2\<lparr>master := x\<rparr>)
                     else check_round E fuel retry (Suc i) True s2)
               else check_round E fuel retry (Suc i) triedQuickCheck s1)
            else check_round E fuel retry (Suc i) triedQuickCheck s1)
      else Some (False, triedQuickCheck, s))"

text \<open>
  The two rounds. The first component of the result is \<open>True\<close> when \<open>_check\<close> returned from
  inside a round (a node reported primary), \<open>False\<close> when both rounds ran to their end.
\<close>

definition check_rounds ::
  "env \<Rightarrow> nat \<Rightarrow> 'a ReplicaSetMonitor_scheme \<Rightarrow> (bool \<times> 'a ReplicaSetMonitor_scheme) option" where
  "check_rounds E fuel s =
     (case check_round E fuel False 0 False (emit (Log CheckStart) s) of
        None \<Rightarrow> None
      | Some (True, t, s1) \<Rightarrow> Some (True, s1)
      | Some (False, t, s1) \<Rightarrow>
          (case check_round E fuel True 0 t (emit (Sleep 1) s1) of
             None \<Rightarrow> None
           | Some (True, t2, s2) \<Rightarrow> Some (True, s2)
           | Some (False, t2, s2) \<Rightarrow> Some (False, emit (Sleep 1) s2)))"

definition priv_check ::
  "env \<Rightarrow> nat \<Rightarrow> 'a ReplicaSetMonitor_scheme \<Rightarrow> 'a ReplicaSetMonitor_scheme option" where
  "priv_check E fuel s = map_option snd (check_rounds E fuel s)"

subsection \<open>\<open>getMaster\<close>, \<open>notifyFailure\<close>\<close>

definition node_at :: "'a ReplicaSetMonitor_scheme \<Rightarrow> int \<Rightarrow> fault + Node" where
  "node_at s i =
     (if 0 \<le> i \<and> i < int (length (nodes s)) then Inr (nodes s ! nat i) else Inl OutOfBounds)"

definition no_master_msg :: "string \<Rightarrow> string" where
  "no_master_msg n = ''ReplicaSetMonitor no master found for set: '' @ n"

definition getMaster ::
  "env \<Rightarrow> nat \<Rightarrow> 'a ReplicaSetMonitor_scheme \<Rightarrow>
   ((failure + HostAndPort) \<times> 'a ReplicaSetMonitor_scheme) option" where
  "getMaster E fuel s =
     (case (if master s < 0 then Inr True
            else case node_at s (master s) of Inl f \<Rightarrow> Inl f | Inr n \<Rightarrow> Inr (\<not> ok n)) of
        Inl f \<Rightarrow> Some (Inl (Fault f), s)
      | Inr run_check \<Rightarrow>
          (case (if run_check then priv_check E fuel s else Some s) of
             None \<Rightarrow> None
           | Some s1 \<Rightarrow>
               if \<not> master s1 \<ge> 0
               then Some (Inl (Throw (UserException 10009 (no_master_msg (set_name s1)))), s1)
               else (case node_at s1 (master s1) of
                       Inl f \<Rightarrow> Some (Inl (Fault f), s1)
                     | Inr n \<Rightarrow> Some (Inr (addr n), s1))))"

definition notifyFailure ::
  "HostAndPort \<Rightarrow> 'a ReplicaSetMonitor_scheme \<Rightarrow> fault + 'a ReplicaSetMonitor_scheme" where
  "notifyFailure server s =
     (if master s \<ge> 0 then
        (case node_at s (master s) of
           Inl f \<Rightarrow> Inl f
         | Inr n \<Rightarrow> if server = addr n then Inr (s\<lparr>master := -1\<rparr>) else Inr s)
      else Inr s)"

subsection \<open>The constructor\<close>

text \<open>The loop over the seeds, lines 57 to 71. A new \<open>Node\<close> has \<open>ok\<close> set.\<close>

fun ctor_seeds ::
  "env \<Rightarrow> HostAndPort list \<Rightarrow> 'a ReplicaSetMonitor_scheme \<Rightarrow> 'a ReplicaSetMonitor_scheme" where
  "ctor_seeds E [] s = s"
| "ctor_seeds E (server # rest) s =
     (let c = next_conn s;
          s1 = emit (NewConn c) (s\<lparr>next_conn := Suc c\<rparr>);
          connected = connect_r E (now s1) c server;
          s2 = emit (Connect c server) s1
      in if \<not> connected then ctor_seeds E rest (emit (Log (SeedConnectError server)) s2)
         else
           (let s3 = s2\<lparr>nodes := nodes s2 @ [\<lparr>addr = server, conn = c, ok = True\<rparr>]\<rparr>;
                (isMaster, maybePrimary, s4) =
                   priv_checkConnection E (conn (nodes s3 ! (length (nodes s3) - 1))) [] False s3
            in if isMaster then s4 else ctor_seeds E rest s4))"

text \<open>
  The constructor proper: \<open>_name(name)\<close>, \<open>_master(-1)\<close>, an empty table, then the loop. The
  static hook and the world are as the constructor finds them.
\<close>

definition ReplicaSetMonitor_ctor ::
  "env \<Rightarrow> string \<Rightarrow> HostAndPort list \<Rightarrow> bool \<Rightarrow> event list \<Rightarrow> nat \<Rightarrow> ReplicaSetMonitor" where
  "ReplicaSetMonitor_ctor E name servers h tr nc =
     ctor_seeds E servers
       \<lparr>set_name = name, nodes = [], master = -1, hook = h, trace = tr, next_conn = nc\<rparr>"

section \<open>DBClientReplicaSet\<close>

subsection \<open>\<open>_auth\<close>\<close>

fun auth_replay ::
  "env \<Rightarrow> DBClientConnection \<Rightarrow> AuthInfo list \<Rightarrow> 'a DBClientReplicaSet_scheme \<Rightarrow>
   'a DBClientReplicaSet_scheme" where
  "auth_replay E c [] s = s"
| "auth_replay E c (a # as) s =
     (let authed = auth_r E (now s) c a;
          s1 = emit (Auth c a) s;
          s2 = (if \<not> authed then emit (Log (CachedAuthFailed a)) s1 else s1)
      in auth_replay E c as s2)"

definition priv_auth ::
  "env \<Rightarrow> DBClientConnection \<Rightarrow> 'a DBClientReplicaSet_scheme \<Rightarrow> 'a DBClientReplicaSet_scheme" where
  "priv_auth E c s = auth_replay E c (auths s) s"

subsection \<open>\<open>checkMaster\<close>\<close>

text \<open>
  Lines 370 to 374. \<open>connect\<close> with one argument returns nothing and throws when it
  cannot connect; the new connection is already installed by then.
\<close>

definition checkMaster_open ::
  "env \<Rightarrow> nat \<Rightarrow> 'a DBClientReplicaSet_scheme \<Rightarrow>
   ((failure + DBClientConnection) \<times> 'a DBClientReplicaSet_scheme) option" where
  "checkMaster_open E fuel s =
     (case getMaster E fuel s of
        None \<Rightarrow> None
      | Some (Inl f, s1) \<Rightarrow> Some (Inl f, s1)
      | Some (Inr h, s1) \<Rightarrow>
          (let s2 = s1\<lparr>masterHost := h\<rparr>;
               c = next_conn s2;
               s3 = emit (NewConn c) (s2\<lparr>next_conn := Suc c, cl_master := Some c\<rparr>);
               thrown = connect_throwing_r E (now s3) c (masterHost s3);
               s4 = emit (ConnectThrowing c (masterHost s3)) s3
           in case thrown of
                Some x \<Rightarrow> Some (Inl (Throw x), s4)
              | None \<Rightarrow> Some (Inr c, priv_auth E c s4)))"

definition checkMaster ::
  "env \<Rightarrow> nat \<Rightarrow> 'a DBClientReplicaSet_scheme \<Rightarrow>
   ((failure + DBClientConnection) \<times> 'a DBClientReplicaSet_scheme) option" where
  "checkMaster E fuel s =
     (case getMaster E fuel s of
        None \<Rightarrow> None
      | Some (Inl f, s1) \<Rightarrow> Some (Inl f, s1)
      | Some (Inr h, s1) \<Rightarrow>
          if h = masterHost s1 then
            (case cl_master s1 of
               None \<Rightarrow> Some (Inl (Fault NullDeref), s1)
             | Some m \<Rightarrow>
                 (let failed = isFailed_r E (now s1) m;
                      s2 = emit (IsFailed m) s1
                  in if \<not> failed then Some (Inr m, s2)
                     else (case notifyFailure (masterHost s2) s2 of
                             Inl f \<Rightarrow> Some (Inl (Fault f), s2)
                           | Inr s3 \<Rightarrow> checkMaster_open E fuel s3)))
          else checkMaster_open E fuel s1)"

subsection \<open>\<open>checkSlave\<close>\<close>

text \<open>
  Lines 384 to 391. The pointer returned is \<open>_slave.get()\<close>, null when no connection was
  ever installed.
\<close>

definition checkSlave_pick ::
  "env \<Rightarrow> 'a DBClientReplicaSet_scheme \<Rightarrow>
   (failure + DBClientConnection option) \<times> 'a DBClientReplicaSet_scheme" where
  "checkSlave_pick E s =
     (case getSlave E s of
        (Inl f, s1) \<Rightarrow> (Inl (Fault f), s1)
      | (Inr h, s1) \<Rightarrow>
          if h \<noteq> slaveHost s1 then
            (let s2 = s1\<lparr>slaveHost := h\<rparr>;
                 c = next_conn s2;
                 s3 = emit (NewConn c) (s2\<lparr>next_conn := Suc c, cl_slave := Some c\<rparr>);
                 thrown = connect_throwing_r E (now s3) c (slaveHost s3);
                 s4 = emit (ConnectThrowing c (slaveHost s3)) s3
             in case thrown of
                  Some x \<Rightarrow> (Inl (Throw x), s4)
                | None \<Rightarrow> (let s5 = priv_auth E c s4 in (Inr (cl_slave s5), s5)))
          else (Inr (cl_slave s1), s1))"

definition checkSlave ::
  "env \<Rightarrow> 'a DBClientReplicaSet_scheme \<Rightarrow>
   (failure + DBClientConnection option) \<times> 'a DBClientReplicaSet_scheme" where
  "checkSlave E s =
     (case cl_slave s of
        Some c \<Rightarrow>
          (let failed = isFailed_r E (now s) c;
               s1 = emit (IsFailed c) s
           in if \<not> failed then (Inr (Some c), s1)
              else checkSlave_pick E (notifySlaveFailure (slaveHost s1) s1))
      | None \<Rightarrow> checkSlave_pick E s)"

subsection \<open>\<open>auth\<close>\<close>


subsection \<open>\<open>query\<close>, \<open>findOne\<close>\<close>

text \<open>The operation forwarded to a connection: \<open>p->query(...)\<close> or \<open>p->findOne(...)\<close>.\<close>

definition forward ::
  "env \<Rightarrow> opkind \<Rightarrow> DBClientConnection option \<Rightarrow> 'a DBClientReplicaSet_scheme \<Rightarrow>
   (failure + BSONElement) \<times> 'a DBClientReplicaSet_scheme" where
  "forward E k p s =
     (case p of
        None \<Rightarrow> (Inl (Fault NullDeref), s)
      | Some c \<Rightarrow>
          (case op_r E (now s) k c of
             Inl x \<Rightarrow> (Inl (Throw x), emit (Op k c) s)
           | Inr v \<Rightarrow> (Inr v, emit (Op k c) s)))"

text \<open>The body of the \<open>try\<close>: \<open>checkSlave()->query(...)\<close>.\<close>

definition slave_attempt ::
  "env \<Rightarrow> opkind \<Rightarrow> 'a DBClientReplicaSet_scheme \<Rightarrow>
   (failure + BSONElement) \<times> 'a DBClientReplicaSet_scheme" where
  "slave_attempt E k s =
     (case checkSlave E s of
        (Inl f, s1) \<Rightarrow> (Inl f, s1)
      | (Inr p, s1) \<Rightarrow> forward E k p s1)"

text \<open>
  The loop \<open>for ( int i=0; i<2; i++ )\<close>, by the number of rounds left. \<open>Some\<close> is a
  \<open>return\<close> or an exception that the handler does not catch; \<open>None\<close> is the loop's end.
\<close>

fun slaveOk_loop ::
  "env \<Rightarrow> opkind \<Rightarrow> nat \<Rightarrow> 'a DBClientReplicaSet_scheme \<Rightarrow>
   (failure + BSONElement) option \<times> 'a DBClientReplicaSet_scheme" where
  "slaveOk_loop E k 0 s = (None, s)"
| "slaveOk_loop E k (Suc n) s =
     (case slave_attempt E k s of
        (Inr v, s1) \<Rightarrow> (Some (Inr v), s1)
      | (Inl f, s1) \<Rightarrow>
          if caughtDBException f
          then slaveOk_loop E k n (emit (Log (CantQuerySlave (slaveHost s1))) s1)
          else (Some (Inl f), s1))"

text \<open>\<open>checkMaster()->query(...)\<close>.\<close>

definition master_attempt ::
  "env \<Rightarrow> nat \<Rightarrow> opkind \<Rightarrow> 'a DBClientReplicaSet_scheme \<Rightarrow>
   ((failure + BSONElement) \<times> 'a DBClientReplicaSet_scheme) option" where
  "master_attempt E fuel k s =
     (case checkMaster E fuel s of
        None \<Rightarrow> None
      | Some (Inl f, s1) \<Rightarrow> Some (Inl f, s1)
      | Some (Inr m, s1) \<Rightarrow> Some (forward E k (Some m) s1))"

text \<open>
  \<open>query\<close> and \<open>findOne\<close> have one body, up to the operation they forward.
  \<open>queryOptions\<close> is an \<open>int\<close>; the bit \<open>QueryOption_SlaveOk\<close> is declared outside this
  file.
\<close>

definition routed_read ::
  "env \<Rightarrow> nat \<Rightarrow> opkind \<Rightarrow> int \<Rightarrow> 'a DBClientReplicaSet_scheme \<Rightarrow>
   ((failure + BSONElement) \<times> 'a DBClientReplicaSet_scheme) option" where
  "routed_read E fuel k queryOptions s =
     (if queryOptions AND QueryOption_SlaveOk E \<noteq> 0 then
        (case slaveOk_loop E k 2 s of
           (Some r, s1) \<Rightarrow> Some (r, s1)
         | (None, s1) \<Rightarrow> master_attempt E fuel k s1)
      else master_attempt E fuel k s)"

definition query ::
  "env \<Rightarrow> nat \<Rightarrow> int \<Rightarrow> 'a DBClientReplicaSet_scheme \<Rightarrow>
   ((failure + BSONElement) \<times> 'a DBClientReplicaSet_scheme) option" where
  "query E fuel queryOptions s = routed_read E fuel Query queryOptions s"

definition findOne ::
  "env \<Rightarrow> nat \<Rightarrow> int \<Rightarrow> 'a DBClientReplicaSet_scheme \<Rightarrow>
   ((failure + BSONElement) \<times> 'a DBClientReplicaSet_scheme) option" where
  "findOne E fuel queryOptions s = routed_read E fuel FindOne queryOptions s"

section \<open>Notions used in the statements\<close>

text \<open>An index a secondary read may go to: not the primary's, and healthy.\<close>

definition qualifies :: "'a ReplicaSetMonitor_scheme \<Rightarrow> nat \<Rightarrow> bool" where
  "qualifies s p = (int p \<noteq> master s \<and> ok (nodes s ! p))"

text \<open>
  The events of a probe (\<open>_checkHosts\<close>, \<open>_checkStatus\<close> and the handshake), and the
  events of the monitor at large, which add the hook and the sleep of \<open>_check\<close>.
\<close>

fun probe_event :: "event \<Rightarrow> bool" where
  "probe_event (NewConn c) = True"
| "probe_event (Connect c h) = True"
| "probe_event (IsMaster c) = True"
| "probe_event (ReplSetGetStatus c) = True"
| "probe_event (Log l) = True"
| "probe_event _ = False"

fun monitor_event :: "event \<Rightarrow> bool" where
  "monitor_event (Hook ns) = True"
| "monitor_event (Sleep n) = True"
| "monitor_event e = probe_event e"

text \<open>
  What a function of the monitor leaves as it was: the name, the hook and the fields of
  a client around the monitor do not change, the addresses of the table and the trace
  only grow at their end, the new events all satisfy \<open>P\<close>, and no connection object is
  given up.
\<close>

definition frame ::
  "(event \<Rightarrow> bool) \<Rightarrow> 'a ReplicaSetMonitor_scheme \<Rightarrow> 'a ReplicaSetMonitor_scheme \<Rightarrow> bool" where
  "frame P s s' =
     (set_name s' = set_name s \<and> hook s' = hook s \<and>
      ReplicaSetMonitor.more s' = ReplicaSetMonitor.more s \<and>
      prefix (map addr (nodes s)) (map addr (nodes s')) \<and>
      next_conn s \<le> next_conn s' \<and>
      (\<exists>evs. trace s' = trace s @ evs \<and> list_all P evs))"

text \<open>The number of times the hook has been called, read off a trace.\<close>

fun is_Hook :: "event \<Rightarrow> bool" where
  "is_Hook (Hook ns) = True"
| "is_Hook _ = False"

definition hook_calls :: "event list \<Rightarrow> nat" where
  "hook_calls tr = length (filter is_Hook tr)"

text \<open>The connections asked \<open>isMaster\<close>, in the order of a trace.\<close>

fun isMaster_calls :: "event list \<Rightarrow> DBClientConnection list" where
  "isMaster_calls [] = []"
| "isMaster_calls (IsMaster c # es) = c # isMaster_calls es"
| "isMaster_calls (e # es) = isMaster_calls es"

text \<open>
  One turn of the constructor's loop, in the terms of the claim: whether the connect to
  the seed succeeds, the state after a seed was skipped, the state after its node was
  appended, and the check of that node.
\<close>

definition seed_connects :: "env \<Rightarrow> HostAndPort \<Rightarrow> 'a ReplicaSetMonitor_scheme \<Rightarrow> bool" where
  "seed_connects E server s = connect_r E (Suc (now s)) (next_conn s) server"

definition seed_skipped ::
  "HostAndPort \<Rightarrow> 'a ReplicaSetMonitor_scheme \<Rightarrow> 'a ReplicaSetMonitor_scheme" where
  "seed_skipped server s =
     s\<lparr>next_conn := Suc (next_conn s),
       trace := trace s @ [NewConn (next_conn s), Connect (next_conn s) server,
                           Log (SeedConnectError server)]\<rparr>"

definition seed_added ::
  "HostAndPort \<Rightarrow> 'a ReplicaSetMonitor_scheme \<Rightarrow> 'a ReplicaSetMonitor_scheme" where
  "seed_added server s =
     s\<lparr>next_conn := Suc (next_conn s),
       trace := trace s @ [NewConn (next_conn s), Connect (next_conn s) server],
       nodes := nodes s @ [\<lparr>addr = server, conn = next_conn s, ok = True\<rparr>]\<rparr>"

definition seed_check ::
  "env \<Rightarrow> HostAndPort \<Rightarrow> 'a ReplicaSetMonitor_scheme \<Rightarrow>
   bool \<times> string \<times> 'a ReplicaSetMonitor_scheme" where
  "seed_check E server s = priv_checkConnection E (next_conn s) [] False (seed_added server s)"

text \<open>
  What a replay does, in the words of the specification: for each cached credential in
  order an \<open>auth\<close> on the connection, followed by a warning when it failed, and then the
  next credential whatever the outcome. \<open>t\<close> is the moment the replay starts.
\<close>

fun replay_events :: "env \<Rightarrow> DBClientConnection \<Rightarrow> nat \<Rightarrow> AuthInfo list \<Rightarrow> event list" where
  "replay_events E c t [] = []"
| "replay_events E c t (a # as) =
     (if auth_r E t c a then Auth c a # replay_events E c (Suc t) as
      else Auth c a # Log (CachedAuthFailed a) # replay_events E c (Suc (Suc t)) as)"



text \<open>The operations forwarded to connections, counted on a trace.\<close>

fun is_Op :: "event \<Rightarrow> bool" where
  "is_Op (Op k c) = True"
| "is_Op _ = False"

definition op_calls :: "event list \<Rightarrow> nat" where
  "op_calls tr = length (filter is_Op tr)"

text \<open>
  The routing of reads, written from the words of the specification and from the
  primitives only: \<open>checkSlave\<close>, \<open>checkMaster\<close>, the answer of a connection to the
  operation, and the event of the operation on that connection.

  The answer of connection \<open>c\<close> to the operation, as the outcome of the call.
\<close>

definition answer ::
  "env \<Rightarrow> opkind \<Rightarrow> DBClientConnection \<Rightarrow> 'a DBClientReplicaSet_scheme \<Rightarrow>
   failure + BSONElement" where
  "answer E k c s = (case op_r E (now s) k c of Inl x \<Rightarrow> Inl (Throw x) | Inr v \<Rightarrow> Inr v)"

text \<open>
  The operation on the connection of \<open>checkSlave\<close>: what \<open>checkSlave\<close> throws is the
  outcome; a null pointer is a fault; otherwise the operation is issued on the
  connection returned, once.
\<close>

definition on_secondary ::
  "env \<Rightarrow> opkind \<Rightarrow> 'a DBClientReplicaSet_scheme \<Rightarrow>
   (failure + BSONElement) \<times> 'a DBClientReplicaSet_scheme" where
  "on_secondary E k s =
     (case checkSlave E s of
        (Inl f, s1) \<Rightarrow> (Inl f, s1)
      | (Inr None, s1) \<Rightarrow> (Inl (Fault NullDeref), s1)
      | (Inr (Some c), s1) \<Rightarrow> (answer E k c s1, emit (Op k c) s1))"

text \<open>The operation on the connection of \<open>checkMaster\<close>, likewise.\<close>

definition on_primary ::
  "env \<Rightarrow> nat \<Rightarrow> opkind \<Rightarrow> 'a DBClientReplicaSet_scheme \<Rightarrow>
   ((failure + BSONElement) \<times> 'a DBClientReplicaSet_scheme) option" where
  "on_primary E fuel k s =
     (case checkMaster E fuel s of
        None \<Rightarrow> None
      | Some (Inl f, s1) \<Rightarrow> Some (Inl f, s1)
      | Some (Inr m, s1) \<Rightarrow> Some (answer E k m s1, emit (Op k m) s1))"

text \<open>
  A read that may go to a secondary: the operation is tried on the connection of
  \<open>checkSlave\<close>; if that ends in a \<open>DBException\<close> it is logged and the operation is tried
  once more on the connection of a second \<open>checkSlave\<close>; if that too ends in a
  \<open>DBException\<close> it is logged and the operation is issued on the connection of
  \<open>checkMaster\<close>. A result, or any other failure, ends the call where it occurs.
\<close>

definition two_secondaries_then_primary ::
  "env \<Rightarrow> nat \<Rightarrow> opkind \<Rightarrow> 'a DBClientReplicaSet_scheme \<Rightarrow>
   ((failure + BSONElement) \<times> 'a DBClientReplicaSet_scheme) option" where
  "two_secondaries_then_primary E fuel k s =
     (case on_secondary E k s of
        (Inr v, s1) \<Rightarrow> Some (Inr v, s1)
      | (Inl f1, s1) \<Rightarrow>
          if \<not> caughtDBException f1 then Some (Inl f1, s1)
          else
            (case on_secondary E k (emit (Log (CantQuerySlave (slaveHost s1))) s1) of
               (Inr v, s2) \<Rightarrow> Some (Inr v, s2)
             | (Inl f2, s2) \<Rightarrow>
                 if \<not> caughtDBException f2 then Some (Inl f2, s2)
                 else on_primary E fuel k (emit (Log (CantQuerySlave (slaveHost s2))) s2)))"

text \<open>The read of each kind: \<open>query\<close> forwards \<open>query\<close>, \<open>findOne\<close> forwards \<open>findOne\<close>.\<close>

fun read_of ::
  "opkind \<Rightarrow> env \<Rightarrow> nat \<Rightarrow> int \<Rightarrow> 'a DBClientReplicaSet_scheme \<Rightarrow>
   ((failure + BSONElement) \<times> 'a DBClientReplicaSet_scheme) option" where
  "read_of Query E fuel queryOptions s = query E fuel queryOptions s"
| "read_of FindOne E fuel queryOptions s = findOne E fuel queryOptions s"

section \<open>Example environments and states\<close>

text \<open>A network where no node is primary and \<open>replSetGetStatus\<close> fails.\<close>

definition quiet_env :: env where
  "quiet_env =
     \<lparr>hp = (\<lambda>x. x),
      connect_r = (\<lambda>t c h. True),
      connect_throwing_r = (\<lambda>t c h. None),
      isMaster_r = (\<lambda>t c. Inr (False, BObject [])),
      replSetGetStatus_r = (\<lambda>t c. Inr (False, BObject [])),
      rand_r = (\<lambda>t. 4),
      isFailed_r = (\<lambda>t c. False),
      auth_r = (\<lambda>t c a. True),
      op_r = (\<lambda>t k c. Inr (BObject [])),
      QueryOption_SlaveOk = 4\<rparr>"

definition node :: "HostAndPort \<Rightarrow> nat \<Rightarrow> bool \<Rightarrow> Node" where
  "node a c b = \<lparr>addr = a, conn = c, ok = b\<rparr>"

definition three_nodes :: ReplicaSetMonitor where
  "three_nodes =
     \<lparr>set_name = ''rs0'',
      nodes = [node ''A:27017'' 0 True, node ''B:27017'' 1 True, node ''C:27017'' 2 True],
      master = 0, hook = True, trace = [], next_conn = 3\<rparr>"

definition no_nodes :: ReplicaSetMonitor where
  "no_nodes =
     \<lparr>set_name = ''rs0'', nodes = [], master = -1, hook = True, trace = [], next_conn = 0\<rparr>"

definition lost_primary :: ReplicaSetMonitor where
  "lost_primary = three_nodes\<lparr>master := -1\<rparr>"

definition stale_primary :: ReplicaSetMonitor where
  "stale_primary =
     \<lparr>set_name = ''rs0'',
      nodes = [node ''A:27017'' 0 False, node ''B:27017'' 1 True, node ''C:27017'' 2 True],
      master = 0, hook = True, trace = [], next_conn = 3\<rparr>"


text \<open>
  A status reply in which A and B are down (health 0, state 8) and C is a healthy
  secondary.
\<close>

definition down_env :: env where
  "down_env = quiet_env\<lparr>replSetGetStatus_r := (\<lambda>t c. Inr (True, BObject [(''members'', BArray
      [BObject [(''name'', BString ''A:27017''), (''state'', BNumber 8), (''health'', BNumber 0)],
       BObject [(''name'', BString ''B:27017''), (''state'', BNumber 8), (''health'', BNumber 0)],
       BObject [(''name'', BString ''C:27017''), (''state'', BNumber 2), (''health'', BNumber 1)]])]))\<rparr>"

text \<open>
  X is seeded and is not primary; its reply lists X, Z and Y and names Y as primary. Y
  (the third connection the monitor opens) reports primary.
\<close>

definition hint_env :: env where
  "hint_env = quiet_env\<lparr>isMaster_r := (\<lambda>t c.
      if c = 2 then Inr (True, BObject [])
      else Inr (False, BObject
        [(''hosts'', BArray [BString ''X:27017'', BString ''Z:27017'', BString ''Y:27017'']),
         (''primary'', BString ''Y:27017'')]))\<rparr>"

definition seed_X :: ReplicaSetMonitor where
  "seed_X =
     \<lparr>set_name = ''rs0'', nodes = [node ''X:27017'' 0 True], master = -1, hook = False,
      trace = [], next_conn = 1\<rparr>"

text \<open>The seeded monitor of the hint example, with a hook set.\<close>

definition seed_X_hooked :: ReplicaSetMonitor where
  "seed_X_hooked = seed_X\<lparr>hook := True\<rparr>"

text \<open>D does not accept connections; every node that answers reports primary.\<close>

definition ctor_env :: env where
  "ctor_env = quiet_env\<lparr>connect_r := (\<lambda>t c h. h \<noteq> ''D:27017''),
                         isMaster_r := (\<lambda>t c. Inr (True, BObject []))\<rparr>"

definition fresh :: ReplicaSetMonitor where
  "fresh = \<lparr>set_name = ''rs0'', nodes = [], master = -1, hook = False, trace = [], next_conn = 0\<rparr>"

text \<open>
  A client whose monitor knows one node, A, which is also the primary; the client's
  secondary connection (object 7) is to A.
\<close>

definition one_node_client :: DBClientReplicaSet where
  "one_node_client =
     \<lparr>set_name = ''rs0'', nodes = [node ''A:27017'' 0 True], master = 0, hook = False,
      trace = [], next_conn = 8,
      cl_master = None, masterHost = [], cl_slave = Some 7, slaveHost = ''A:27017'',
      auths = [\<lparr>dbname = ''admin'', username = ''alice'', pwd = ''pw'', digestPassword = True\<rparr>]\<rparr>"

text \<open>Every connection reports that it has failed.\<close>

definition failed_env :: env where
  "failed_env = quiet_env\<lparr>isFailed_r := (\<lambda>t c. True)\<rparr>"

definition alice :: AuthInfo where
  "alice = \<lparr>dbname = ''admin'', username = ''alice'', pwd = ''pw'', digestPassword = True\<rparr>"

definition bob :: AuthInfo where
  "bob = \<lparr>dbname = ''test'', username = ''bob'', pwd = ''x'', digestPassword = True\<rparr>"

text \<open>
  A client of the three-node set whose primary connection (object 7) is to A, with two
  cached credentials and no secondary connection yet.
\<close>

definition client_of_A :: DBClientReplicaSet where
  "client_of_A =
     \<lparr>set_name = ''rs0'',
      nodes = [node ''A:27017'' 0 True, node ''B:27017'' 1 True, node ''C:27017'' 2 True],
      master = 0, hook = False, trace = [], next_conn = 8,
      cl_master = Some 7, masterHost = ''A:27017'', cl_slave = None, slaveHost = [],
      auths = [alice, bob]\<rparr>"


text \<open>
  The operation fails with a socket exception on every connection but object 7, and
  every connection but object 7 reports that it has failed.
\<close>

definition flaky_env :: env where
  "flaky_env = quiet_env\<lparr>op_r := (\<lambda>t k c. if c = 7 then Inr (BObject [(''x'', BNumber 1)])
                                         else Inl SocketException),
                          isFailed_r := (\<lambda>t c. c \<noteq> 7)\<rparr>"

section \<open>The secondary \<open>getSlave\<close> picks\<close>

lemma getSlave_scan_find:
  "getSlave_scan ns m x is =
     map_option (\<lambda>i. addr (ns ! ((i + x) mod length ns)))
       (List.find (\<lambda>i. int ((i + x) mod length ns) \<noteq> m \<and> ok (ns ! ((i + x) mod length ns))) is)"
  by (induction "is") (auto simp: Let_def)

lemma find_upt_first:
  "List.find P [0..<n] = Some i \<longleftrightarrow> i < n \<and> P i \<and> (\<forall>j<i. \<not> P j)"
  by (auto simp: find_Some_iff)

lemma find_upt_none: "List.find P [0..<n] = None \<longleftrightarrow> (\<forall>i<n. \<not> P i)"
  by (auto simp: find_None_iff)

text \<open>The cyclic scan from any offset visits every index.\<close>

lemma cyclic_cover:
  assumes "p < n"
  shows "\<exists>i<n. (i + x) mod n = (p::nat)"
proof -
  have n0: "0 < n" using assms by simp
  let ?i = "(p + (n - x mod n)) mod n"
  have "?i < n" using n0 by simp
  moreover have "(?i + x) mod n = p"
  proof -
    have "(?i + x) mod n = (p + (n - x mod n) + x) mod n" by (simp add: mod_add_left_eq)
    also have "\<dots> = (p + (n - x mod n) + x mod n) mod n" by (simp add: mod_add_right_eq)
    also have "p + (n - x mod n) + x mod n = p + n"
    proof -
      have "x mod n < n" using n0 by simp
      then show ?thesis by arith
    qed
    also have "(p + n) mod n = p" using assms by simp
    finally show ?thesis .
  qed
  ultimately show ?thesis by blast
qed

lemma getSlave_nonempty:
  assumes "nodes s \<noteq> []"
  shows "\<exists>a. getSlave E s = (Inr a, emit Rand s) \<and>
     ((\<exists>i<length (nodes s).
          a = addr (nodes s ! ((i + rand_r E (now s) mod length (nodes s)) mod length (nodes s))) \<and>
          qualifies s ((i + rand_r E (now s) mod length (nodes s)) mod length (nodes s)) \<and>
          (\<forall>j<i. \<not> qualifies s ((j + rand_r E (now s) mod length (nodes s)) mod length (nodes s))))
      \<or> ((\<forall>p<length (nodes s). \<not> qualifies s p) \<and> a = addr (nodes s ! 0))) \<and>
     ((\<exists>p<length (nodes s). qualifies s p) \<longrightarrow>
        (\<exists>p<length (nodes s). qualifies s p \<and> a = addr (nodes s ! p)) \<and>
        (distinct (map addr (nodes s)) \<longrightarrow> 0 \<le> master s \<longrightarrow> master s < int (length (nodes s)) \<longrightarrow>
           a \<noteq> addr (nodes s ! nat (master s))))"
proof -
  let ?n = "length (nodes s)"
  let ?x = "rand_r E (now s) mod ?n"
  let ?P = "\<lambda>i. qualifies s ((i + ?x) mod ?n)"
  have n0: "0 < ?n" using assms by simp
  have scan: "getSlave_scan (nodes s) (master s) ?x [0..<?n] =
      map_option (\<lambda>i. addr (nodes s ! ((i + ?x) mod ?n))) (List.find ?P [0..<?n])"
    by (simp add: getSlave_scan_find qualifies_def)
  have fb: "getSlave_fallback (nodes s) = Inr (addr (nodes s ! 0))"
    using assms by (cases "nodes s") (simp_all add: getSlave_fallback_def)
  show ?thesis
  proof (cases "List.find ?P [0..<?n]")
    case None
    then have none: "\<forall>i<?n. \<not> ?P i" by (simp add: find_upt_none)
    have nq: "\<forall>p<?n. \<not> qualifies s p"
    proof (intro allI impI)
      fix p assume "p < ?n"
      then obtain i where "i < ?n" "(i + ?x) mod ?n = p" using cyclic_cover by blast
      with none show "\<not> qualifies s p" by auto
    qed
    have "getSlave E s = (Inr (addr (nodes s ! 0)), emit Rand s)"
      using n0 None scan fb by (simp add: getSlave_def getSlave_offset_def emit_def Let_def)
    with nq show ?thesis by auto
  next
    case (Some i)
    then have i: "i < ?n" "?P i" "\<forall>j<i. \<not> ?P j" by (simp_all add: find_upt_first)
    let ?p = "(i + ?x) mod ?n"
    have p: "?p < ?n" using n0 by simp
    have g: "getSlave E s = (Inr (addr (nodes s ! ?p)), emit Rand s)"
      using n0 Some scan by (simp add: getSlave_def getSlave_offset_def emit_def Let_def)
    have d: "addr (nodes s ! ?p) \<noteq> addr (nodes s ! nat (master s))"
      if "distinct (map addr (nodes s))" "0 \<le> master s" "master s < int ?n"
    proof -
      have ne: "?p \<noteq> nat (master s)" using i(2) that(2) by (auto simp: qualifies_def)
      have "nat (master s) < ?n" using that by simp
      with that(1) p ne show ?thesis
        using nth_eq_iff_index_eq [of "map addr (nodes s)" ?p "nat (master s)"] by simp
    qed
    show ?thesis using g i p d by blast
  qed
qed




text \<open>
  Claim C9. \<open>getSlave\<close> needs a table that is not empty. On an empty table the modulus of
  line 161 divides by zero, which is where the call ends, and the read of \<open>_nodes[0]\<close> of
  line 173 is out of range. On a table with a node the modulus is defined and below the
  length, every index \<open>(i + x) % len\<close> of the loop is below the length, the read of
  \<open>_nodes[0]\<close> is in range, and the call returns an address.
\<close>

theorem getSlave_requires_nodes:
  "(nodes s = [] \<longrightarrow>
      getSlave_offset r (length (nodes s)) = Inl DivByZero \<and>
      getSlave_fallback (nodes s) = Inl OutOfBounds \<and>
      fst (getSlave E s) = Inl DivByZero) \<and>
   (nodes s \<noteq> [] \<longrightarrow>
      (\<exists>x<length (nodes s). getSlave_offset r (length (nodes s)) = Inr x) \<and>
      (\<forall>i x. (i + x) mod length (nodes s) < length (nodes s)) \<and>
      getSlave_fallback (nodes s) = Inr (addr (nodes s ! 0)) \<and>
      (\<exists>a. fst (getSlave E s) = Inr a))"
proof (cases "nodes s")
  case Nil
  then show ?thesis
    by (simp add: getSlave_def getSlave_offset_def getSlave_fallback_def emit_def Let_def)
next
  case (Cons n ns)
  then have ne: "nodes s \<noteq> []" by simp
  from getSlave_nonempty [OF ne, of E]
  obtain a where "getSlave E s = (Inr a, emit Rand s)" by blast
  then have "\<exists>a. fst (getSlave E s) = Inr a" by simp
  then show ?thesis using Cons
    by (simp add: getSlave_offset_def getSlave_fallback_def)
qed

theorem getSlave_requires_nodes_witness:
  "fst (getSlave quiet_env no_nodes) = Inl DivByZero \<and>
   getSlave_fallback (nodes no_nodes) = Inl OutOfBounds \<and>
   getSlave_offset 4 (length (nodes three_nodes)) = Inr 1 \<and>
   getSlave_fallback (nodes three_nodes) = Inr ''A:27017''"
  using getSlave_requires_nodes [of no_nodes 4 quiet_env]
        getSlave_requires_nodes [of three_nodes 4 quiet_env]
  by (simp add: no_nodes_def three_nodes_def node_def getSlave_offset_def)

section \<open>What the functions of the monitor preserve\<close>

lemma frame_refl: "frame P s s"
  by (simp add: frame_def)

lemma frame_trans:
  assumes "frame P s s1" "frame P s1 s2"
  shows "frame P s s2"
proof -
  from assms(1) obtain evs1 where 1: "trace s1 = trace s @ evs1" "list_all P evs1"
    unfolding frame_def by blast
  from assms(2) obtain evs2 where 2: "trace s2 = trace s1 @ evs2" "list_all P evs2"
    unfolding frame_def by blast
  have tr: "trace s2 = trace s @ (evs1 @ evs2) \<and> list_all P (evs1 @ evs2)"
    using 1 2 by simp
  have pre: "prefix (map addr (nodes s)) (map addr (nodes s2))"
    using assms unfolding frame_def by (meson prefix_order.trans)
  show ?thesis
    unfolding frame_def using assms pre tr unfolding frame_def by (intro conjI exI [of _ "evs1 @ evs2"]) simp_all
qed

lemma frame_mono: "frame P s s' \<Longrightarrow> (\<And>e. P e \<Longrightarrow> Q e) \<Longrightarrow> frame Q s s'"
  unfolding frame_def by (auto simp: list_all_iff)

lemma probe_monitor: "probe_event e \<Longrightarrow> monitor_event e"
  by (cases e) simp_all

lemma frame_probe_monitor: "frame probe_event s s' \<Longrightarrow> frame monitor_event s s'"
  by (erule frame_mono) (rule probe_monitor)

lemma frame_emit: "P e \<Longrightarrow> frame P s (emit e s)"
  by (simp add: frame_def emit_def)

lemma frame_emit_after: "P e \<Longrightarrow> frame P s s' \<Longrightarrow> frame P s (emit e s')"
  by (auto simp add: frame_def emit_def)

lemma map_addr_set_ok: "map addr (nodes (set_ok i b s)) = map addr (nodes s)"
proof (cases "i < length (nodes s)")
  case True
  then show ?thesis by (simp add: set_ok_def map_update list_update_same_conv)
next
  case False
  then have "length (nodes s) \<le> i" by simp
  then have "(nodes s)[i := (nodes s ! i)\<lparr>ok := b\<rparr>] = nodes s" by (rule list_update_beyond)
  then show ?thesis by (simp add: set_ok_def)
qed

lemma set_ok_simps:
  "set_name (set_ok i b s) = set_name s" "hook (set_ok i b s) = hook s"
  "master (set_ok i b s) = master s" "trace (set_ok i b s) = trace s"
  "next_conn (set_ok i b s) = next_conn s"
  "ReplicaSetMonitor.more (set_ok i b s) = ReplicaSetMonitor.more s"
  "length (nodes (set_ok i b s)) = length (nodes s)"
  by (simp_all add: set_ok_def)

lemma frame_set_ok: "frame P s (set_ok i b s)"
  by (simp add: frame_def set_ok_simps map_addr_set_ok)

lemma emit_simps:
  "set_name (emit e s) = set_name s" "hook (emit e s) = hook s"
  "master (emit e s) = master s" "trace (emit e s) = trace s @ [e]"
  "next_conn (emit e s) = next_conn s" "nodes (emit e s) = nodes s"
  "ReplicaSetMonitor.more (emit e s) = ReplicaSetMonitor.more s"
  by (simp_all add: emit_def)

lemma find_from_cong: "map addr ns = map addr ms \<Longrightarrow> find_from ns h k = find_from ms h k"
proof (induction ns arbitrary: ms k)
  case Nil
  then show ?case by simp
next
  case (Cons n ns)
  then obtain m ms' where ms: "ms = m # ms'" "addr m = addr n" "map addr ns = map addr ms'"
    by (cases ms) auto
  then show ?case using Cons.IH [of ms' "Suc k"] by simp
qed

lemma priv_find_set_ok: "priv_find (set_ok i b s) h = priv_find s h"
proof -
  from find_from_cong [OF map_addr_set_ok] show ?thesis unfolding priv_find_def .
qed

subsection \<open>What \<open>_checkStatus\<close> and \<open>_checkHosts\<close> leave as it was\<close>

lemma checkStatus_members_frame:
  "frame probe_event s (snd (checkStatus_members E es s)) \<and>
   master (snd (checkStatus_members E es s)) = master s \<and>
   length (nodes (snd (checkStatus_members E es s))) = length (nodes s) \<and>
   trace (snd (checkStatus_members E es s)) = trace s"
proof (induction es arbitrary: s)
  case Nil
  show ?case by (simp add: frame_refl)
next
  case (Cons e es)
  have step: "frame probe_event s (snd (checkStatus_members E es (set_ok i b s))) \<and>
   master (snd (checkStatus_members E es (set_ok i b s))) = master s \<and>
   length (nodes (snd (checkStatus_members E es (set_ok i b s)))) = length (nodes s) \<and>
   trace (snd (checkStatus_members E es (set_ok i b s))) = trace s" for i b
    using Cons.IH [of "set_ok i b s"] frame_trans [OF frame_set_ok [of probe_event s i b]]
    by (simp add: set_ok_simps)
  show ?case
    using Cons.IH [of s] step
    by (simp add: Let_def frame_refl split: sum.splits)
qed

lemma checkStatus_frame:
  "frame probe_event s (snd (priv_checkStatus E c s)) \<and>
   master (snd (priv_checkStatus E c s)) = master s \<and>
   length (nodes (snd (priv_checkStatus E c s))) = length (nodes s)"
proof -
  let ?s1 = "emit (ReplSetGetStatus c) s"
  have e: "frame probe_event s ?s1" by (simp add: frame_emit)
  have m: "frame probe_event s (snd (checkStatus_members E es ?s1))" for es
    using frame_trans [OF e] checkStatus_members_frame [of ?s1 E es] by blast
  show ?thesis
    using e m checkStatus_members_frame [of ?s1 E]
    by (simp add: priv_checkStatus_def Let_def emit_simps split: sum.splits prod.splits)
qed

lemma checkHosts_frame:
  "frame probe_event s (snd (snd (priv_checkHosts E es ch s))) \<and>
   master (snd (snd (priv_checkHosts E es ch s))) = master s \<and>
   fst (snd (priv_checkHosts E es ch s)) =
     (ch \<or> length (nodes s) < length (nodes (snd (snd (priv_checkHosts E es ch s)))))"
proof (induction es arbitrary: s ch)
  case Nil
  show ?case by (simp add: frame_refl)
next
  case (Cons e es)
  show ?case
  proof (cases "String_of e")
    case (Inl x)
    then show ?thesis by (simp add: frame_refl)
  next
    case (Inr toCheck)
    show ?thesis
    proof (cases "priv_find_string E s toCheck \<ge> 0")
      case True
      then show ?thesis using Inr Cons.IH [of s ch] by simp
    next
      case False
      let ?h = "hp E toCheck"
      let ?s4 = "emit (Log UpdatedSet)
          ((emit (Connect (next_conn s) ?h) (emit (NewConn (next_conn s)) (s\<lparr>next_conn := Suc (next_conn s)\<rparr>)))
             \<lparr>nodes := nodes s @ [\<lparr>addr = ?h, conn = next_conn s, ok = True\<rparr>]\<rparr>)"
      have eq: "priv_checkHosts E (e # es) ch s = priv_checkHosts E es True ?s4"
        using Inr False by (simp add: Let_def emit_def)
      have f4: "frame probe_event s ?s4"
        by (simp add: frame_def emit_def)
      have len: "length (nodes ?s4) = Suc (length (nodes s))" by (simp add: emit_def)
      have m4: "master ?s4 = master s" by (simp add: emit_def)
      from Cons.IH [of ?s4 True] have
        ih1: "frame probe_event ?s4 (snd (snd (priv_checkHosts E es True ?s4)))" and
        ih2: "master (snd (snd (priv_checkHosts E es True ?s4))) = master ?s4" and
        ih3: "fst (snd (priv_checkHosts E es True ?s4))" by simp_all
      have grow: "length (nodes ?s4) \<le> length (nodes (snd (snd (priv_checkHosts E es True ?s4))))"
        using ih1 unfolding frame_def by (metis length_map prefix_length_le)
      show ?thesis
        unfolding eq using frame_trans [OF f4 ih1] ih2 ih3 m4 grow len by simp
    qed
  qed
qed

subsection \<open>\<open>_checkConnection\<close> and the hook\<close>

lemma frame_length: "frame P s s' \<Longrightarrow> length (nodes s) \<le> length (nodes s')"
  unfolding frame_def by (metis length_map prefix_length_le)

lemma probe_not_Hook: "probe_event e \<Longrightarrow> \<not> is_Hook e"
  by (cases e) simp_all

lemma frame_probe_hook_calls:
  assumes "frame probe_event s s'"
  shows "hook_calls (trace s') = hook_calls (trace s)"
proof -
  from assms obtain evs where evs: "trace s' = trace s @ evs" "list_all probe_event evs"
    unfolding frame_def by blast
  have "filter is_Hook evs = []"
    using evs(2) by (simp add: list_all_iff filter_empty_conv probe_not_Hook)
  then show ?thesis using evs(1) by (simp add: hook_calls_def)
qed

lemma checkConnection_try_frame:
  "frame probe_event s (snd (checkConnection_try E c s)) \<and>
   master (snd (checkConnection_try E c s)) = master s \<and>
   fst (snd (fst (checkConnection_try E c s))) =
     (length (nodes s) < length (nodes (snd (checkConnection_try E c s))))"
proof (cases "isMaster_r E (now s) c")
  case (Inl x)
  then show ?thesis by (simp add: checkConnection_try_def frame_emit emit_simps)
next
  case (Inr r)
  obtain isM obj where r: "r = (isM, obj)" by (cases r)
  let ?s1 = "emit (Log (CheckConnectionReply c)) (emit (IsMaster c) s)"
  have f1: "frame probe_event s ?s1"
    by (intro frame_emit_after frame_emit) simp_all
  have n1: "nodes ?s1 = nodes s" "master ?s1 = master s" by (simp_all add: emit_simps)
  define H1 where "H1 =
     (if isArray (getField obj ''hosts'')
      then priv_checkHosts E (elems (getField obj ''hosts'')) False ?s1
      else (None, False, ?s1))"
  obtain x1 ch1 s2 where H1: "H1 = (x1, ch1, s2)" by (cases H1)
  have p1: "frame probe_event ?s1 s2 \<and> master s2 = master ?s1 \<and>
      ch1 = (length (nodes ?s1) < length (nodes s2))"
  proof (cases "isArray (getField obj ''hosts'')")
    case True
    then show ?thesis
      using checkHosts_frame [of ?s1 E "elems (getField obj ''hosts'')" False] H1
      unfolding H1_def by simp
  next
    case False
    then show ?thesis using H1 unfolding H1_def by (auto simp: frame_refl)
  qed
  define H2 where "H2 =
     (if hasField obj ''passives'' \<and> isArray (getField obj ''passives'')
      then priv_checkHosts E (elems (getField obj ''passives'')) ch1 s2
      else (None, ch1, s2))"
  obtain x2 ch2 s3 where H2: "H2 = (x2, ch2, s3)" by (cases H2)
  have p2: "frame probe_event s2 s3 \<and> master s3 = master s2 \<and>
      ch2 = (ch1 \<or> length (nodes s2) < length (nodes s3))"
  proof (cases "hasField obj ''passives'' \<and> isArray (getField obj ''passives'')")
    case True
    then show ?thesis
      using checkHosts_frame [of s2 E "elems (getField obj ''passives'')" ch1] H2
      unfolding H2_def by simp
  next
    case False
    then show ?thesis using H2 unfolding H2_def by (auto simp: frame_refl)
  qed
  obtain x3 s4 where H3: "priv_checkStatus E c s3 = (x3, s4)" by (cases "priv_checkStatus E c s3")
  have p3: "frame probe_event s3 s4 \<and> master s4 = master s3 \<and>
      length (nodes s4) = length (nodes s3)"
    using checkStatus_frame [of s3 E c] H3 by simp
  have f2: "frame probe_event s s2" using frame_trans [OF f1] p1 by blast
  have f3: "frame probe_event s s3" using frame_trans [OF f2] p2 by blast
  have f4: "frame probe_event s s4" using frame_trans [OF f3] p3 by blast
  have l12: "length (nodes s) \<le> length (nodes s2)" using frame_length [OF f2] .
  have l23: "length (nodes s2) \<le> length (nodes s3)" using p2 frame_length by blast
  have c1: "ch1 = (length (nodes s) < length (nodes s2))" using p1 n1 by simp
  have c2: "ch2 = (length (nodes s) < length (nodes s3))" using p2 c1 l12 l23 by auto
  have res: "checkConnection_try E c s =
      (case x1 of
         Some x \<Rightarrow> ((isM, ch1, (if isArray (getField obj ''hosts'') then
                    (case getField obj ''primary'' of BString p \<Rightarrow> p | _ \<Rightarrow> []) else []), Some x), s2)
       | None \<Rightarrow>
          (case x2 of
             Some x \<Rightarrow> ((isM, ch2, (if isArray (getField obj ''hosts'') then
                    (case getField obj ''primary'' of BString p \<Rightarrow> p | _ \<Rightarrow> []) else []), Some x), s3)
           | None \<Rightarrow> ((isM, ch2, (if isArray (getField obj ''hosts'') then
                    (case getField obj ''primary'' of BString p \<Rightarrow> p | _ \<Rightarrow> []) else []), x3), s4)))"
    apply (simp only: checkConnection_try_def Inr r sum.case prod.case Let_def)
    apply (simp only: H1_def [symmetric] H1 prod.case)
    apply (simp only: H2_def [symmetric] H2 prod.case H3)
    done
  show ?thesis
  proof (cases x1)
    case (Some x)
    then show ?thesis using res f2 p1 n1 c1 by simp
  next
    case None
    note n = this
    show ?thesis
    proof (cases x2)
      case (Some x)
      then show ?thesis using res n f3 p1 p2 n1 c2 by simp
    next
      case None
      then show ?thesis using res n f4 p1 p2 p3 n1 c2 by simp
    qed
  qed
qed

lemma checkConnection_frame:
  assumes "priv_checkConnection E c mp v s = (isM, mp', s')"
  shows "frame monitor_event s s'" and "master s' = master s" and "mp' = mp"
    and "hook_calls (trace s') =
           hook_calls (trace s) + (if hook s \<and> length (nodes s) < length (nodes s') then 1 else 0)"
    and "hook s \<and> length (nodes s) < length (nodes s') \<longrightarrow>
           last (trace s') = Hook (map addr (nodes s'))"
proof -
  obtain im ch bm x s1 where T: "checkConnection_try E c s = ((im, ch, bm, x), s1)"
    by (cases "checkConnection_try E c s") auto
  from checkConnection_try_frame [of s E c] T
  have t: "frame probe_event s s1" "master s1 = master s" "ch = (length (nodes s) < length (nodes s1))"
    by simp_all
  define s2 where "s2 = (case x of Some e \<Rightarrow> emit (Log (CheckConnectionCaught c)) s1 | None \<Rightarrow> s1)"
  have f12: "frame probe_event s1 s2"
    unfolding s2_def by (cases x) (simp_all add: frame_refl frame_emit)
  have n2: "nodes s2 = nodes s1" "master s2 = master s1" "hook s2 = hook s1"
    unfolding s2_def by (cases x; simp add: emit_simps)+
  have f2: "frame probe_event s s2" using frame_trans [OF t(1) f12] .
  have h2: "hook s2 = hook s" using f2 unfolding frame_def by simp
  have s': "s' = (if ch \<and> hook s2 then emit (Hook (map addr (nodes s2))) s2 else s2)" and "mp' = mp"
    using assms T unfolding priv_checkConnection_def s2_def by (simp_all add: Let_def)
  show "mp' = mp" by fact
  have hc2: "hook_calls (trace s2) = hook_calls (trace s)" using frame_probe_hook_calls [OF f2] .
  show "frame monitor_event s s'"
    unfolding s' using frame_probe_monitor [OF f2] by (simp add: frame_emit_after)
  show "master s' = master s" unfolding s' using n2 t by (simp add: emit_simps)
  have ns': "nodes s' = nodes s2" unfolding s' by (simp add: emit_simps)
  show "hook_calls (trace s') =
           hook_calls (trace s) + (if hook s \<and> length (nodes s) < length (nodes s') then 1 else 0)"
    unfolding ns' unfolding s' using hc2 t(3) n2 h2 by (simp add: emit_simps hook_calls_def)
  show "hook s \<and> length (nodes s) < length (nodes s') \<longrightarrow>
           last (trace s') = Hook (map addr (nodes s'))"
    unfolding ns' unfolding s' using t(3) n2 h2 by (simp add: emit_simps)
qed

subsection \<open>\<open>_check\<close> and \<open>getMaster\<close>\<close>

lemma frame_addr:
  assumes "frame P s s'" "i < length (nodes s)"
  shows "addr (nodes s' ! i) = addr (nodes s ! i)"
proof -
  from assms(1) obtain zs where zs: "map addr (nodes s') = map addr (nodes s) @ zs"
    unfolding frame_def prefix_def by blast
  have "i < length (nodes s')" using frame_length [OF assms(1)] assms(2) by simp
  then have "addr (nodes s' ! i) = map addr (nodes s') ! i" by simp
  also have "\<dots> = map addr (nodes s) ! i" using zs assms(2) by (simp add: nth_append)
  also have "\<dots> = addr (nodes s ! i)" using assms(2) by simp
  finally show ?thesis .
qed

lemma frame_master_update: "frame P s s' \<Longrightarrow> frame P s (s'\<lparr>master := m\<rparr>)"
  by (simp add: frame_def)

lemma check_round_frame:
  assumes "check_round E fuel retry i t s = Some (found, t', s')"
  shows "frame monitor_event s s' \<and> (\<not> found \<longrightarrow> master s' = master s) \<and>
         (found \<longrightarrow> 0 \<le> master s' \<and> master s' < int (length (nodes s')))"
  using assms
proof (induction fuel arbitrary: i t s)
  case 0
  then show ?case by simp
next
  case (Suc fuel)
  show ?case
  proof (cases "i < length (nodes s)")
    case False
    then show ?thesis using Suc.prems by (auto simp: frame_refl)
  next
    case True
    obtain isM mp s1 where C: "priv_checkConnection E (conn (nodes s ! i)) [] retry s = (isM, mp, s1)"
      by (cases "priv_checkConnection E (conn (nodes s ! i)) [] retry s") auto
    note c = checkConnection_frame [OF C]
    have mp: "mp = []" using c(3) .
    show ?thesis
    proof (cases isM)
      case True
      then have s': "s' = s1\<lparr>master := int i\<rparr>" "found"
        using Suc.prems \<open>i < length (nodes s)\<close> C by (simp_all add: Let_def)
      have "length (nodes s) \<le> length (nodes s1)" using frame_length [OF c(1)] .
      then show ?thesis using s' c(1) \<open>i < length (nodes s)\<close> by (simp add: frame_master_update)
    next
      case False
      then have "check_round E fuel retry (Suc i) t s1 = Some (found, t', s')"
        using Suc.prems \<open>i < length (nodes s)\<close> C mp by (simp add: Let_def)
      from Suc.IH [OF this] show ?thesis using frame_trans [OF c(1)] c(2) by auto
    qed
  qed
qed

lemma check_rounds_frame:
  assumes "check_rounds E fuel s = Some (found, s')"
  shows "frame monitor_event s s' \<and> (\<not> found \<longrightarrow> master s' = master s) \<and>
         (found \<longrightarrow> 0 \<le> master s' \<and> master s' < int (length (nodes s')))"
proof -
  let ?s0 = "emit (Log CheckStart) s"
  have f0: "frame monitor_event s ?s0" by (simp add: frame_emit)
  obtain fd1 t1 s1 where R1: "check_round E fuel False 0 False ?s0 = Some (fd1, t1, s1)"
    using assms unfolding check_rounds_def by (auto split: option.splits)
  note r1 = check_round_frame [OF R1]
  have f1: "frame monitor_event s s1" using frame_trans [OF f0] r1 by blast
  show ?thesis
  proof (cases fd1)
    case True
    then have "s' = s1" "found" using assms R1 unfolding check_rounds_def by simp_all
    then show ?thesis using f1 r1 True by simp
  next
    case False
    let ?s1 = "emit (Sleep 1) s1"
    have f1': "frame monitor_event s ?s1" using f1 by (simp add: frame_emit_after)
    obtain fd2 t2 s2 where R2: "check_round E fuel True 0 t1 ?s1 = Some (fd2, t2, s2)"
      using assms R1 False unfolding check_rounds_def by (auto split: option.splits)
    note r2 = check_round_frame [OF R2]
    have f2: "frame monitor_event s s2" using frame_trans [OF f1'] r2 by blast
    have m1: "master s1 = master s" using r1 False by (simp add: emit_simps)
    show ?thesis
    proof (cases fd2)
      case True
      then have "s' = s2" "found" using assms R1 R2 False unfolding check_rounds_def by simp_all
      then show ?thesis using f2 r2 True by simp
    next
      case fd2: False
      then have "s' = emit (Sleep 1) s2" "\<not> found"
        using assms R1 R2 False unfolding check_rounds_def by simp_all
      then show ?thesis using f2 r2 fd2 m1 by (simp add: frame_emit_after emit_simps)
    qed
  qed
qed

lemma node_at_in_range:
  "0 \<le> i \<Longrightarrow> i < int (length (nodes s)) \<Longrightarrow> node_at s i = Inr (nodes s ! nat i)"
  by (simp add: node_at_def)

lemma getMaster_frame:
  assumes "getMaster E fuel s = Some (r, s')"
  shows "frame monitor_event s s'"
proof -
  have "frame monitor_event s s1" if "priv_check E fuel s = Some s1" for s1
    using that check_rounds_frame [of E fuel s] unfolding priv_check_def by auto
  then show ?thesis
    using assms unfolding getMaster_def
    by (auto simp: frame_refl split: sum.splits option.splits if_splits)
qed

text \<open>
  Claim C1, as amended. \<open>_check\<close> never writes \<open>-1\<close> to \<open>_master\<close>: when both rounds
  run to their end with no node reporting primary, \<open>_master\<close> is what it was. So when
  \<open>getMaster\<close> started the check because \<open>_master\<close> was negative, \<open>_master\<close> is still
  negative and \<open>getMaster\<close> fails with assertion 10009, whose message carries the set
  name; when it started the check because the designated primary was not \<open>ok\<close>,
  \<open>_master\<close> still designates that node and \<open>getMaster\<close> returns its address.
\<close>

theorem getMaster_after_fruitless_check:
  assumes "check_rounds E fuel s = Some (False, s')"
    and "master s < 0 \<or> (master s < int (length (nodes s)) \<and> \<not> ok (nodes s ! nat (master s)))"
  shows "master s' = master s \<and>
     (master s < 0 \<longrightarrow>
        getMaster E fuel s =
          Some (Inl (Throw (UserException 10009 (no_master_msg (set_name s)))), s')) \<and>
     (0 \<le> master s \<longrightarrow>
        getMaster E fuel s = Some (Inr (addr (nodes s ! nat (master s))), s'))"
proof -
  note f = check_rounds_frame [OF assms(1)]
  have m: "master s' = master s" using f by simp
  have fr: "frame monitor_event s s'" using f by simp
  have nm: "set_name s' = set_name s" using fr unfolding frame_def by simp
  have pc: "priv_check E fuel s = Some s'" using assms(1) by (simp add: priv_check_def)
  have neg: "getMaster E fuel s =
          Some (Inl (Throw (UserException 10009 (no_master_msg (set_name s)))), s')"
    if "master s < 0"
    using that pc m nm by (simp add: getMaster_def)
  have pos: "getMaster E fuel s = Some (Inr (addr (nodes s ! nat (master s))), s')"
    if "0 \<le> master s"
  proof -
    from that assms(2) have in_range: "master s < int (length (nodes s))"
      and bad: "\<not> ok (nodes s ! nat (master s))" by auto
    have i: "nat (master s) < length (nodes s)" using that in_range by simp
    have "master s < int (length (nodes s'))" using frame_length [OF fr] in_range by simp
    then have n': "node_at s' (master s') = Inr (nodes s' ! nat (master s))"
      using that m by (simp add: node_at_in_range)
    have a: "addr (nodes s' ! nat (master s)) = addr (nodes s ! nat (master s))"
      using frame_addr [OF fr i] .
    show ?thesis
      using that in_range bad pc m n' a by (simp add: getMaster_def node_at_in_range)
  qed
  show ?thesis using m neg pos by blast
qed

theorem getMaster_after_fruitless_check_witness:
  "map_option fst (check_rounds quiet_env 5 lost_primary) = Some False \<and>
   master lost_primary < 0 \<and>
   map_option fst (getMaster quiet_env 5 lost_primary) =
     Some (Inl (Throw (UserException 10009 ''ReplicaSetMonitor no master found for set: rs0''))) \<and>
   map_option (\<lambda>(r, s'). master s') (getMaster quiet_env 5 lost_primary) = Some (-1) \<and>
   map_option fst (getMaster quiet_env 5 stale_primary) = Some (Inr ''A:27017'')"
proof -
  have h1: "check_rounds quiet_env 5 lost_primary =
      Some (False, snd (the (check_rounds quiet_env 5 lost_primary)))"
    by code_simp
  have t1: "master lost_primary < 0 \<or>
      (master lost_primary < int (length (nodes lost_primary)) \<and>
       \<not> ok (nodes lost_primary ! nat (master lost_primary)))"
    by (simp add: lost_primary_def)
  have h2: "check_rounds quiet_env 5 stale_primary =
      Some (False, snd (the (check_rounds quiet_env 5 stale_primary)))"
    by code_simp
  have t2: "master stale_primary < 0 \<or>
      (master stale_primary < int (length (nodes stale_primary)) \<and>
       \<not> ok (nodes stale_primary ! nat (master stale_primary)))"
    by (simp add: stale_primary_def node_def)
  have m1: "master lost_primary = -1" "set_name lost_primary = ''rs0''"
    by (simp_all add: lost_primary_def three_nodes_def)
  have m2: "master stale_primary = 0" "addr (nodes stale_primary ! 0) = ''A:27017''"
    by (simp_all add: stale_primary_def node_def)
  have f1: "map_option fst (check_rounds quiet_env 5 lost_primary) = Some False"
    by code_simp
  show ?thesis
    using getMaster_after_fruitless_check [OF h1 t1] getMaster_after_fruitless_check [OF h2 t2]
      f1 m1 m2
    by (simp add: no_master_msg_def)
qed

text \<open>
  The claim as it was stated fails where the check was started for a primary that is not
  \<open>ok\<close>: both rounds end with no primary, \<open>_master\<close> is still 0 and \<open>getMaster\<close>
  returns the address of node 0.
\<close>

theorem getMaster_stale_primary_counterexample:
  "0 \<le> master stale_primary \<and> \<not> ok (nodes stale_primary ! 0) \<and>
   map_option fst (check_rounds quiet_env 5 stale_primary) = Some False \<and>
   map_option (\<lambda>(r, s'). (r, master s')) (getMaster quiet_env 5 stale_primary) =
     Some (Inr ''A:27017'', 0)"
  by code_simp

subsection \<open>\<open>_checkStatus\<close> and the node at index 0\<close>

lemma set_ok_take1:
  "0 < m \<Longrightarrow> take (Suc 0) (nodes (set_ok (nat m) b s)) = take (Suc 0) (nodes s)"
  by (cases "nodes s") (auto simp: set_ok_def nat_eq_iff split: nat.splits)

lemma checkStatus_members_take1:
  "take (Suc 0) (nodes (snd (checkStatus_members E es s))) = take (Suc 0) (nodes s)"
proof (induction es arbitrary: s)
  case Nil
  then show ?case by simp
next
  case (Cons e es)
  show ?case
    by (auto simp: Let_def Cons.IH set_ok_take1 split: sum.splits)
qed

text \<open>
  Claim C2 (the code departs from it). The status pass skips a member whose name
  \<open>_find\<close> locates at index 0, since line 202 tests \<open><= 0\<close> where "not found" is \<open>< 0\<close>:
  whatever the reply says, the first node of the table is after the pass what it was
  before. In the example A is reported down and stays \<open>ok\<close>, while B, at index 1, is
  marked not \<open>ok\<close>.
\<close>

theorem checkStatus_never_updates_node0:
  "take 1 (nodes (snd (priv_checkStatus E c s))) = take 1 (nodes s)"
  by (auto simp: priv_checkStatus_def Let_def emit_def checkStatus_members_take1
      split: sum.splits prod.splits)

theorem checkStatus_never_updates_node0_witness:
  "map ok (nodes (snd (priv_checkStatus down_env 0 three_nodes))) = [True, False, True]"
  using checkStatus_never_updates_node0 [of down_env 0 three_nodes]
  by (simp add: priv_checkStatus_def down_env_def quiet_env_def three_nodes_def node_def Let_def
      emit_def hasField_def priv_find_string_def priv_find_def set_ok_def now_def)

subsection \<open>\<open>_checkConnection\<close> and the primary hint\<close>

text \<open>
  Claim C3 (the code departs from it). Line 249 declares a second \<open>maybePrimary\<close> inside
  the \<open>try\<close> block, so the \<open>primary\<close> of the reply is assigned to that one and the
  caller's string is never written: it comes back as it went in. \<open>_check\<close> passes an
  empty string, so its quick check never runs. In the example the block has read the hint
  \<open>Y:27017\<close>, the caller gets the empty string, and \<open>_check\<close> asks X, then Z, then Y, in
  table order.
\<close>

theorem checkConnection_hint_lost:
  "fst (snd (priv_checkConnection E c maybePrimary verbose s)) = maybePrimary"
  by (simp add: priv_checkConnection_def Let_def split: prod.splits)

theorem checkConnection_hint_lost_witness:
  "fst (snd (snd (fst (checkConnection_try hint_env 0 seed_X)))) = ''Y:27017'' \<and>
   fst (snd (priv_checkConnection hint_env 0 [] False seed_X)) = [] \<and>
   map_option (\<lambda>(found, s). (found, master s, map addr (nodes s), isMaster_calls (trace s)))
     (check_rounds hint_env 5 seed_X) =
     Some (True, 2, [''X:27017'', ''Z:27017'', ''Y:27017''], [0, 1, 2])"
  using checkConnection_hint_lost [of hint_env 0 "[]" False seed_X]
  by code_simp

subsection \<open>The hook, once for each \<open>_checkConnection\<close>\<close>

text \<open>
  Claim C7. One call of \<open>_checkConnection\<close> calls the hook once when a hook is set and the
  table has grown during the call, and not at all otherwise. So it calls it at most once,
  and when it calls it then nodes were appended (only \<open>_checkHosts\<close> appends), the old
  table is the beginning of the new one, and the call of the hook is the last thing the
  function does: the hook sees the table as the function leaves it.
\<close>

theorem checkConnection_calls_hook_at_most_once:
  assumes "priv_checkConnection E c maybePrimary verbose s = (isMaster, maybePrimary', s')"
  shows "hook_calls (trace s') =
           hook_calls (trace s) + (if hook s \<and> length (nodes s) < length (nodes s') then 1 else 0) \<and>
         hook_calls (trace s') \<le> hook_calls (trace s) + 1 \<and>
         (hook_calls (trace s) < hook_calls (trace s') \<longrightarrow>
            hook s \<and> length (nodes s) < length (nodes s') \<and>
            prefix (map addr (nodes s)) (map addr (nodes s')) \<and>
            last (trace s') = Hook (map addr (nodes s')))"
proof -
  note c = checkConnection_frame [OF assms]
  have p: "prefix (map addr (nodes s)) (map addr (nodes s'))"
    using c(1) unfolding frame_def by simp
  show ?thesis using c(4) c(5) p by (simp split: if_splits)
qed

theorem checkConnection_calls_hook_at_most_once_witness:
  "hook_calls (trace seed_X_hooked) = 0 \<and>
   hook_calls (trace (snd (snd (priv_checkConnection hint_env 0 [] False seed_X_hooked)))) = 1 \<and>
   last (trace (snd (snd (priv_checkConnection hint_env 0 [] False seed_X_hooked)))) =
     Hook [''X:27017'', ''Z:27017'', ''Y:27017''] \<and>
   hook_calls (trace (snd (snd (priv_checkConnection hint_env 0 [] False
     (snd (snd (priv_checkConnection hint_env 0 [] False seed_X_hooked))))))) = 1"
proof -
  let ?r = "priv_checkConnection hint_env 0 [] False seed_X_hooked"
  have e: "?r = (fst ?r, fst (snd ?r), snd (snd ?r))" by simp
  have n: "hook seed_X_hooked \<and>
      length (nodes seed_X_hooked) < length (nodes (snd (snd ?r)))"
    by code_simp
  have h0: "hook_calls (trace seed_X_hooked) = 0" by code_simp
  have l: "last (trace (snd (snd ?r))) = Hook [''X:27017'', ''Z:27017'', ''Y:27017'']"
    by code_simp
  have again: "hook_calls (trace (snd (snd (priv_checkConnection hint_env 0 [] False
     (snd (snd ?r)))))) = 1"
    by code_simp
  show ?thesis
    using checkConnection_calls_hook_at_most_once [OF e] n h0 l again by simp
qed

subsection \<open>The constructor, seed by seed\<close>

lemma ctor_seeds_step:
  "ctor_seeds E (server # rest) s =
     (if \<not> seed_connects E server s then ctor_seeds E rest (seed_skipped server s)
      else if fst (seed_check E server s) then snd (snd (seed_check E server s))
      else ctor_seeds E rest (snd (snd (seed_check E server s))))"
  by (simp add: seed_connects_def seed_skipped_def seed_added_def seed_check_def Let_def
      emit_def now_def split: prod.splits)

lemma seed_check_master: "master (snd (snd (seed_check E server s))) = master s"
proof -
  let ?r = "seed_check E server s"
  have "priv_checkConnection E (next_conn s) [] False (seed_added server s) =
      (fst ?r, fst (snd ?r), snd (snd ?r))" by (simp add: seed_check_def)
  from checkConnection_frame(2) [OF this] show ?thesis by (simp add: seed_added_def)
qed

lemma seed_check_node:
  "length (nodes s) < length (nodes (snd (snd (seed_check E server s)))) \<and>
   addr (nodes (snd (snd (seed_check E server s))) ! length (nodes s)) = server"
proof -
  let ?r = "seed_check E server s"
  have "priv_checkConnection E (next_conn s) [] False (seed_added server s) =
      (fst ?r, fst (snd ?r), snd (snd ?r))" by (simp add: seed_check_def)
  note f = checkConnection_frame(1) [OF this]
  have l: "length (nodes s) < length (nodes (seed_added server s))" by (simp add: seed_added_def)
  from frame_addr [OF f l] frame_length [OF f] l show ?thesis
    by (simp add: seed_added_def)
qed

lemma ctor_seeds_master: "master (ctor_seeds E servers s) = master s"
proof (induction servers arbitrary: s)
  case Nil
  show ?case by simp
next
  case (Cons server rest)
  show ?case
    unfolding ctor_seeds_step
    by (simp add: Cons.IH seed_check_master) (simp add: seed_skipped_def)
qed

text \<open>
  Claim C4, as amended. The constructor takes the seeds in order. A seed whose connect
  fails is logged and skipped: the table is untouched. A seed that connects is appended
  as a node (its address stands at the next index of the table) and checked; when the
  check reports primary the loop ends and the seeds after it are not touched, otherwise
  the loop goes on with them. The constructor has no statement that writes \<open>_master\<close>:
  it is \<open>-1\<close> when the constructor ends, also when a check reported primary.
\<close>

theorem ctor_never_sets_master:
  "master (ReplicaSetMonitor_ctor E name servers h tr nc) = -1 \<and>
   master (ctor_seeds E servers s) = master s \<and>
   (\<not> seed_connects E server s \<longrightarrow>
      ctor_seeds E (server # rest) s = ctor_seeds E rest (seed_skipped server s)) \<and>
   (seed_connects E server s \<longrightarrow>
      length (nodes s) < length (nodes (snd (snd (seed_check E server s)))) \<and>
      addr (nodes (snd (snd (seed_check E server s))) ! length (nodes s)) = server \<and>
      (fst (seed_check E server s) \<longrightarrow>
         ctor_seeds E (server # rest) s = snd (snd (seed_check E server s))) \<and>
      (\<not> fst (seed_check E server s) \<longrightarrow>
         ctor_seeds E (server # rest) s = ctor_seeds E rest (snd (snd (seed_check E server s)))))"
  using seed_check_node [of s E server]
  by (simp add: ctor_seeds_step [of E server rest s] ctor_seeds_master ReplicaSetMonitor_ctor_def
      del: ctor_seeds.simps)

theorem ctor_never_sets_master_witness:
  "\<not> seed_connects ctor_env ''D:27017'' fresh \<and>
   seed_connects ctor_env ''A:27017'' (seed_skipped ''D:27017'' fresh) \<and>
   fst (seed_check ctor_env ''A:27017'' (seed_skipped ''D:27017'' fresh)) \<and>
   map addr (nodes (ReplicaSetMonitor_ctor ctor_env ''rs0'' [''D:27017'', ''A:27017'', ''B:27017''] False [] 0))
     = [''A:27017''] \<and>
   master (ReplicaSetMonitor_ctor ctor_env ''rs0'' [''D:27017'', ''A:27017'', ''B:27017''] False [] 0) = -1 \<and>
   ctor_seeds ctor_env [''D:27017'', ''A:27017'', ''B:27017''] fresh =
     snd (snd (seed_check ctor_env ''A:27017'' (seed_skipped ''D:27017'' fresh)))"
proof -
  have 1: "\<not> seed_connects ctor_env ''D:27017'' fresh" by code_simp
  have 2: "seed_connects ctor_env ''A:27017'' (seed_skipped ''D:27017'' fresh)" by code_simp
  have 3: "fst (seed_check ctor_env ''A:27017'' (seed_skipped ''D:27017'' fresh))" by code_simp
  have 4: "map addr (nodes (ReplicaSetMonitor_ctor ctor_env ''rs0''
       [''D:27017'', ''A:27017'', ''B:27017''] False [] 0)) = [''A:27017'']" by code_simp
  show ?thesis
    using ctor_never_sets_master [of ctor_env "''rs0''" "[''D:27017'', ''A:27017'', ''B:27017'']" False "[]" 0
        fresh "''D:27017''" "[''A:27017'', ''B:27017'']"]
      ctor_never_sets_master [of ctor_env "''rs0''" "[]" False "[]" 0
        "seed_skipped ''D:27017'' fresh" "''A:27017''" "[''B:27017'']"]
      1 2 3 4
    by simp
qed

text \<open>
  The claim as it was stated fails on one seed that connects and reports primary: the
  node is at index 0 and \<open>_master\<close> is not 0.
\<close>

theorem ctor_master_counterexample:
  "seed_connects ctor_env ''A:27017'' fresh \<and>
   fst (seed_check ctor_env ''A:27017'' fresh) \<and>
   map addr (nodes (ReplicaSetMonitor_ctor ctor_env ''rs0'' [''A:27017''] False [] 0)) = [''A:27017''] \<and>
   master (ReplicaSetMonitor_ctor ctor_env ''rs0'' [''A:27017''] False [] 0) \<noteq> 0"
  by code_simp

section \<open>The client\<close>

subsection \<open>\<open>checkSlave\<close> on a failed connection\<close>

lemma notifySlaveFailure_fields:
  "trace (notifySlaveFailure h s) = trace s"
  "next_conn (notifySlaveFailure h s) = next_conn s"
  "master (notifySlaveFailure h s) = master s"
  "ReplicaSetMonitor.more (notifySlaveFailure h s) = ReplicaSetMonitor.more s"
  by (simp_all add: notifySlaveFailure_def Let_def set_ok_simps)

lemma more_client_fields:
  fixes s s' :: "'a DBClientReplicaSet_scheme"
  assumes "ReplicaSetMonitor.more s' = ReplicaSetMonitor.more s"
  shows "cl_master s' = cl_master s" "masterHost s' = masterHost s"
    "cl_slave s' = cl_slave s" "slaveHost s' = slaveHost s" "auths s' = auths s"
  using assms by (cases s, cases s', simp)+

lemma getSlave_state: "snd (getSlave E s) = emit Rand s"
  by (simp add: getSlave_def Let_def split: sum.splits option.splits)

text \<open>
  Claim C10. When the cached secondary connection is marked failed and \<open>getSlave\<close>
  (asked after the failure was notified) returns the address the connection was opened
  against, \<open>checkSlave\<close> returns that same connection object. The cache, the credentials
  and the next fresh connection are what they were, and the only events are the
  \<open>isFailed\<close> test and the \<open>rand()\<close> of \<open>getSlave\<close>: no connection is created or
  connected, and no credential is replayed.
\<close>

theorem checkSlave_keeps_failed_connection:
  assumes "cl_slave s = Some c"
    and "isFailed_r E (now s) c"
    and "fst (getSlave E (notifySlaveFailure (slaveHost s) (emit (IsFailed c) s))) = Inr (slaveHost s)"
  shows "fst (checkSlave E s) = Inr (Some c) \<and>
         cl_slave (snd (checkSlave E s)) = Some c \<and>
         slaveHost (snd (checkSlave E s)) = slaveHost s \<and>
         auths (snd (checkSlave E s)) = auths s \<and>
         next_conn (snd (checkSlave E s)) = next_conn s \<and>
         trace (snd (checkSlave E s)) = trace s @ [IsFailed c, Rand]"
proof -
  let ?s1 = "notifySlaveFailure (slaveHost s) (emit (IsFailed c) s)"
  have sh: "slaveHost (emit (IsFailed c) s) = slaveHost s" by (simp add: emit_def)
  have m1: "ReplicaSetMonitor.more ?s1 = ReplicaSetMonitor.more s"
    by (simp add: notifySlaveFailure_fields emit_simps)
  have g: "getSlave E ?s1 = (Inr (slaveHost s), emit Rand ?s1)"
    using assms(3) getSlave_state [of E ?s1] by (metis prod.collapse)
  have m2: "ReplicaSetMonitor.more (emit Rand ?s1) = ReplicaSetMonitor.more s"
    using m1 by (simp add: emit_simps)
  note cf = more_client_fields [OF m2]
  have pick: "checkSlave_pick E ?s1 = (Inr (Some c), emit Rand ?s1)"
    using g cf assms(1) by (simp add: checkSlave_pick_def)
  have cs: "checkSlave E s = (Inr (Some c), emit Rand ?s1)"
    using assms(1,2) pick sh by (simp add: checkSlave_def Let_def)
  show ?thesis
    unfolding cs using cf assms(1)
    by (simp add: emit_simps notifySlaveFailure_fields)
qed

theorem checkSlave_keeps_failed_connection_witness:
  "cl_slave one_node_client = Some 7 \<and>
   isFailed_r failed_env (now one_node_client) 7 \<and>
   fst (checkSlave failed_env one_node_client) = Inr (Some 7) \<and>
   trace (snd (checkSlave failed_env one_node_client)) = [IsFailed 7, Rand] \<and>
   next_conn (snd (checkSlave failed_env one_node_client)) = 8"
proof -
  have 1: "cl_slave one_node_client = Some 7" by (simp add: one_node_client_def)
  have 2: "isFailed_r failed_env (now one_node_client) 7" by (simp add: failed_env_def)
  have 3: "fst (getSlave failed_env (notifySlaveFailure (slaveHost one_node_client)
       (emit (IsFailed 7) one_node_client))) = Inr (slaveHost one_node_client)"
    by code_simp
  have 4: "trace one_node_client = []" "next_conn one_node_client = 8"
    by (simp_all add: one_node_client_def)
  show ?thesis
    using checkSlave_keeps_failed_connection [OF 1 2 3] 1 2 4 by simp
qed

subsection \<open>Credentials: \<open>auth\<close> and the replay of \<open>_auth\<close>\<close>

lemma auth_replay_trace:
  "auth_replay E c as s = s\<lparr>trace := trace s @ replay_events E c (now s) as\<rparr>"
proof (induction as arbitrary: s)
  case Nil
  show ?case by simp
next
  case (Cons a as)
  show ?case by (simp add: Cons.IH Let_def emit_def now_def)
qed

lemma priv_auth_trace:
  "priv_auth E c s = s\<lparr>trace := trace s @ replay_events E c (now s) (auths s)\<rparr>"
  by (simp add: priv_auth_def auth_replay_trace)




lemma notifyFailure_more:
  "notifyFailure h s = Inr s' \<Longrightarrow>
     ReplicaSetMonitor.more s' = ReplicaSetMonitor.more s \<and> trace s' = trace s"
  by (auto simp: notifyFailure_def split: if_splits sum.splits)







subsection \<open>Routing of \<open>query\<close> and \<open>findOne\<close>\<close>

lemma op_calls_append: "op_calls (xs @ ys) = op_calls xs + op_calls ys"
  by (simp add: op_calls_def)

lemma monitor_not_Op: "monitor_event e \<Longrightarrow> \<not> is_Op e"
  by (cases e) simp_all

lemma frame_op_calls:
  assumes "frame monitor_event s s'"
  shows "op_calls (trace s') = op_calls (trace s)"
proof -
  from assms obtain evs where evs: "trace s' = trace s @ evs" "list_all monitor_event evs"
    unfolding frame_def by blast
  have "filter is_Op evs = []"
    using evs(2) by (simp add: list_all_iff filter_empty_conv monitor_not_Op)
  then show ?thesis using evs(1) by (simp add: op_calls_def)
qed

lemma replay_events_no_Op: "op_calls (replay_events E c t as) = 0"
  by (induction as arbitrary: t) (simp_all add: op_calls_def)

lemma priv_auth_op_calls: "op_calls (trace (priv_auth E c s)) = op_calls (trace s)"
  by (simp add: priv_auth_trace op_calls_append replay_events_no_Op)

lemma emit_op_calls: "\<not> is_Op e \<Longrightarrow> op_calls (trace (emit e s)) = op_calls (trace s)"
  by (simp add: emit_def op_calls_def)

lemma checkMaster_open_op_calls:
  assumes "checkMaster_open E fuel s = Some (r, s')"
  shows "op_calls (trace s') = op_calls (trace s)"
proof -
  obtain g s1 where G: "getMaster E fuel s = Some (g, s1)"
    using assms unfolding checkMaster_open_def by (auto split: option.splits)
  note f = frame_op_calls [OF getMaster_frame [OF G]]
  show ?thesis
  proof (cases g)
    case (Inl x)
    then have "s' = s1" using assms G unfolding checkMaster_open_def by simp
    then show ?thesis using f by simp
  next
    case (Inr h)
    let ?s3 = "emit (NewConn (next_conn s1)) (s1\<lparr>masterHost := h, next_conn := Suc (next_conn s1),
        cl_master := Some (next_conn s1)\<rparr>)"
    let ?s4 = "emit (ConnectThrowing (next_conn s1) h) ?s3"
    have t4: "op_calls (trace ?s4) = op_calls (trace s)"
      using f by (simp add: emit_def op_calls_def)
    have "s' = ?s4 \<or> s' = priv_auth E (next_conn s1) ?s4"
      using assms G Inr unfolding checkMaster_open_def
      by (simp add: Let_def emit_def split: option.splits)
    then show ?thesis using t4 priv_auth_op_calls [of E "next_conn s1" ?s4] by auto
  qed
qed

lemma checkMaster_op_calls:
  assumes "checkMaster E fuel s = Some (r, s')"
  shows "op_calls (trace s') = op_calls (trace s)"
proof -
  obtain g s1 where G: "getMaster E fuel s = Some (g, s1)"
    using assms unfolding checkMaster_def by (auto split: option.splits)
  note f = frame_op_calls [OF getMaster_frame [OF G]]
  have o: "op_calls (trace s') = op_calls (trace s)"
    if "checkMaster_open E fuel s2 = Some (r, s')" "trace s2 = trace s1 \<or> (\<exists>m. trace s2 = trace s1 @ [IsFailed m])" for s2
    using checkMaster_open_op_calls [OF that(1)] that(2) f by (auto simp: op_calls_def)
  show ?thesis
  proof (cases g)
    case (Inl x)
    then show ?thesis using assms G f unfolding checkMaster_def by auto
  next
    case (Inr h)
    show ?thesis
    proof (cases "h = masterHost s1")
      case False
      then have "checkMaster_open E fuel s1 = Some (r, s')"
        using assms G Inr unfolding checkMaster_def by simp
      from o [OF this] show ?thesis by simp
    next
      case True
      show ?thesis
      proof (cases "cl_master s1")
        case None
        then show ?thesis using assms G Inr True f unfolding checkMaster_def by auto
      next
        case (Some mc)
        let ?s2 = "emit (IsFailed mc) s1"
        have e2: "op_calls (trace ?s2) = op_calls (trace s)" using f by (simp add: emit_op_calls)
        show ?thesis
        proof (cases "isFailed_r E (now s1) mc")
          case False
          then have "s' = ?s2"
            using assms G Inr True Some unfolding checkMaster_def by (simp add: Let_def)
          then show ?thesis using e2 by simp
        next
          case failed: True
          show ?thesis
          proof (cases "notifyFailure (masterHost ?s2) ?s2")
            case (Inl x)
            then have "s' = ?s2"
              using assms G Inr True Some failed unfolding checkMaster_def by (simp add: Let_def)
            then show ?thesis using e2 by simp
          next
            case nf: (Inr s3)
            then have c: "checkMaster_open E fuel s3 = Some (r, s')"
              using assms G Inr True Some failed unfolding checkMaster_def by (simp add: Let_def)
            have "trace s3 = trace s1 @ [IsFailed mc]"
              using notifyFailure_more [OF nf] by (simp add: emit_def)
            with o [OF c] show ?thesis by blast
          qed
        qed
      qed
    qed
  qed
qed

lemma checkSlave_pick_op_calls: "op_calls (trace (snd (checkSlave_pick E s))) = op_calls (trace s)"
proof -
  obtain g where G: "getSlave E s = (g, emit Rand s)"
    using getSlave_state [of E s] by (metis prod.collapse)
  show ?thesis
    unfolding checkSlave_pick_def G
    by (auto simp: Let_def priv_auth_op_calls emit_op_calls split: sum.splits option.splits)
qed

lemma checkSlave_op_calls: "op_calls (trace (snd (checkSlave E s))) = op_calls (trace s)"
  by (auto simp: checkSlave_def Let_def checkSlave_pick_op_calls emit_op_calls
      notifySlaveFailure_fields split: option.splits)

lemma forward_op_calls: "op_calls (trace (snd (forward E k p s))) \<le> op_calls (trace s) + 1"
  by (auto simp: forward_def emit_def op_calls_def split: option.splits sum.splits)

lemma slave_attempt_op_calls:
  "op_calls (trace (snd (slave_attempt E k s))) \<le> op_calls (trace s) + 1"
proof -
  obtain r s1 where C: "checkSlave E s = (r, s1)" by (cases "checkSlave E s")
  have 1: "op_calls (trace s1) = op_calls (trace s)" using checkSlave_op_calls [of E s] C by simp
  show ?thesis
    using C 1 forward_op_calls [of E k _ s1]
    by (auto simp: slave_attempt_def split: sum.splits)
qed

lemma master_attempt_op_calls:
  assumes "master_attempt E fuel k s = Some (r, s')"
  shows "op_calls (trace s') \<le> op_calls (trace s) + 1"
proof -
  obtain g s1 where C: "checkMaster E fuel s = Some (g, s1)"
    using assms unfolding master_attempt_def by (auto split: option.splits)
  note 1 = checkMaster_op_calls [OF C]
  show ?thesis
    using assms C 1 forward_op_calls [of E k _ s1]
    by (auto simp: master_attempt_def split: sum.splits) (metis snd_conv)
qed

lemma routed_read_unrolled:
  "routed_read E fuel k queryOptions s =
     (if queryOptions AND QueryOption_SlaveOk E = 0 then master_attempt E fuel k s
      else
        (case slave_attempt E k s of
           (Inr v, s1) \<Rightarrow> Some (Inr v, s1)
         | (Inl f1, s1) \<Rightarrow>
             if \<not> caughtDBException f1 then Some (Inl f1, s1)
             else
               (case slave_attempt E k (emit (Log (CantQuerySlave (slaveHost s1))) s1) of
                  (Inr v, s2) \<Rightarrow> Some (Inr v, s2)
                | (Inl f2, s2) \<Rightarrow>
                    if \<not> caughtDBException f2 then Some (Inl f2, s2)
                    else master_attempt E fuel k (emit (Log (CantQuerySlave (slaveHost s2))) s2))))"
  by (simp add: routed_read_def numeral_2_eq_2 split: prod.splits sum.splits)

lemma routed_read_op_calls:
  assumes "routed_read E fuel k queryOptions s = Some (r, s')"
  shows "op_calls (trace s') \<le>
           op_calls (trace s) + (if queryOptions AND QueryOption_SlaveOk E = 0 then 1 else 3)"
proof (cases "queryOptions AND QueryOption_SlaveOk E = 0")
  case True
  then have "master_attempt E fuel k s = Some (r, s')" using assms by (simp add: routed_read_def)
  from master_attempt_op_calls [OF this] True show ?thesis by simp
next
  case False
  obtain r1 s1 where A1: "slave_attempt E k s = (r1, s1)" by (cases "slave_attempt E k s")
  have o1: "op_calls (trace s1) \<le> op_calls (trace s) + 1"
    using slave_attempt_op_calls [of E k s] A1 by simp
  let ?s1 = "emit (Log (CantQuerySlave (slaveHost s1))) s1"
  obtain r2 s2 where A2: "slave_attempt E k ?s1 = (r2, s2)" by (cases "slave_attempt E k ?s1")
  have o2: "op_calls (trace s2) \<le> op_calls (trace s) + 2"
    using slave_attempt_op_calls [of E k ?s1] A2 o1 by (simp add: emit_op_calls)
  let ?s2 = "emit (Log (CantQuerySlave (slaveHost s2))) s2"
  have o3: "op_calls (trace s') \<le> op_calls (trace s) + 3"
    if "master_attempt E fuel k ?s2 = Some (r, s')"
    using master_attempt_op_calls [OF that] o2 by (simp add: emit_op_calls)
  have "op_calls (trace s') \<le> op_calls (trace s) + 3"
    using assms False A1 A2 o1 o2 o3 unfolding routed_read_unrolled
    by (auto split: sum.splits if_splits)
  then show ?thesis using False by simp
qed

lemma on_secondary_slave_attempt: "on_secondary E k s = slave_attempt E k s"
  by (simp add: on_secondary_def slave_attempt_def forward_def answer_def
      split: prod.splits sum.splits option.splits)

lemma on_primary_master_attempt: "on_primary E fuel k s = master_attempt E fuel k s"
  by (simp add: on_primary_def master_attempt_def forward_def answer_def
      split: prod.splits sum.splits option.splits)

lemma read_of_routed: "read_of k E fuel queryOptions s = routed_read E fuel k queryOptions s"
  by (cases k) (simp_all add: query_def findOne_def)

lemma read_of_unrolled:
  "read_of k E fuel queryOptions s =
     (if queryOptions AND QueryOption_SlaveOk E = 0 then on_primary E fuel k s
      else two_secondaries_then_primary E fuel k s)"
  unfolding read_of_routed two_secondaries_then_primary_def on_secondary_slave_attempt
    on_primary_master_attempt
  by (rule routed_read_unrolled)

lemma emit_slaveHost: "slaveHost (emit e s) = slaveHost s"
  by (simp add: emit_def)

text \<open>
  Claim C6. With the \<open>SlaveOk\<close> bit in its options, \<open>query\<close> (and likewise \<open>findOne\<close>,
  with its own operation) is the routing of the specification: the operation goes to
  the connection \<open>checkSlave\<close> returns, after a \<open>DBException\<close> to the connection a second
  \<open>checkSlave\<close> returns, and after a second \<open>DBException\<close> to the connection
  \<open>checkMaster\<close> returns. In particular an answer of the first secondary is the result,
  with that one operation on that connection; and when the operations on the
  connections of both \<open>checkSlave\<close> calls throw a \<open>DBException\<close>, the result is the
  answer of the connection of \<open>checkMaster\<close>, asked last. Without the bit the result is
  the answer of the connection of \<open>checkMaster\<close>, with one operation on it. The call
  forwards at most three operations with the bit and at most one without.
\<close>

theorem slaveOk_read_routing:
  "(queryOptions AND QueryOption_SlaveOk E \<noteq> 0 \<longrightarrow>
      query E fuel queryOptions s = two_secondaries_then_primary E fuel Query s \<and>
      findOne E fuel queryOptions s = two_secondaries_then_primary E fuel FindOne s) \<and>
   (queryOptions AND QueryOption_SlaveOk E = 0 \<longrightarrow>
      query E fuel queryOptions s = on_primary E fuel Query s \<and>
      findOne E fuel queryOptions s = on_primary E fuel FindOne s) \<and>
   (queryOptions AND QueryOption_SlaveOk E \<noteq> 0 \<and>
    checkSlave E s = (Inr (Some c1), s1) \<and> op_r E (now s1) k c1 = Inr v \<longrightarrow>
      read_of k E fuel queryOptions s = Some (Inr v, emit (Op k c1) s1)) \<and>
   (queryOptions AND QueryOption_SlaveOk E \<noteq> 0 \<and>
    checkSlave E s = (Inr (Some c1), s1) \<and>
    op_r E (now s1) k c1 = Inl x1 \<and> isDBException x1 \<and>
    checkSlave E (emit (Log (CantQuerySlave (slaveHost s1))) (emit (Op k c1) s1)) =
      (Inr (Some c2), s2) \<and>
    op_r E (now s2) k c2 = Inl x2 \<and> isDBException x2 \<and>
    checkMaster E fuel (emit (Log (CantQuerySlave (slaveHost s2))) (emit (Op k c2) s2)) =
      Some (Inr m, s3) \<longrightarrow>
      read_of k E fuel queryOptions s = Some (answer E k m s3, emit (Op k m) s3)) \<and>
   (queryOptions AND QueryOption_SlaveOk E = 0 \<and> checkMaster E fuel s = Some (Inr m, s3) \<longrightarrow>
      read_of k E fuel queryOptions s = Some (answer E k m s3, emit (Op k m) s3)) \<and>
   (read_of k E fuel queryOptions s = Some (r, s') \<longrightarrow>
      op_calls (trace s') \<le>
        op_calls (trace s) + (if queryOptions AND QueryOption_SlaveOk E = 0 then 1 else 3))"
proof -
  note u = read_of_unrolled [of _ E fuel queryOptions s]
  have qf: "query E fuel queryOptions s = read_of Query E fuel queryOptions s"
    "findOne E fuel queryOptions s = read_of FindOne E fuel queryOptions s"
    by simp_all
  have A: "query E fuel queryOptions s = two_secondaries_then_primary E fuel Query s \<and>
      findOne E fuel queryOptions s = two_secondaries_then_primary E fuel FindOne s"
    if "queryOptions AND QueryOption_SlaveOk E \<noteq> 0"
    unfolding qf u using that by simp
  have B: "query E fuel queryOptions s = on_primary E fuel Query s \<and>
      findOne E fuel queryOptions s = on_primary E fuel FindOne s"
    if "queryOptions AND QueryOption_SlaveOk E = 0"
    unfolding qf u using that by simp
  have C: "read_of k E fuel queryOptions s = Some (Inr v, emit (Op k c1) s1)"
    if "queryOptions AND QueryOption_SlaveOk E \<noteq> 0 \<and>
        checkSlave E s = (Inr (Some c1), s1) \<and> op_r E (now s1) k c1 = Inr v"
    unfolding u using that
    by (simp add: two_secondaries_then_primary_def on_secondary_def answer_def)
  have D: "read_of k E fuel queryOptions s = Some (answer E k m s3, emit (Op k m) s3)"
    if h: "queryOptions AND QueryOption_SlaveOk E \<noteq> 0 \<and>
      checkSlave E s = (Inr (Some c1), s1) \<and>
      op_r E (now s1) k c1 = Inl x1 \<and> isDBException x1 \<and>
      checkSlave E (emit (Log (CantQuerySlave (slaveHost s1))) (emit (Op k c1) s1)) =
        (Inr (Some c2), s2) \<and>
      op_r E (now s2) k c2 = Inl x2 \<and> isDBException x2 \<and>
      checkMaster E fuel (emit (Log (CantQuerySlave (slaveHost s2))) (emit (Op k c2) s2)) =
        Some (Inr m, s3)"
  proof -
    have 1: "on_secondary E k s = (Inl (Throw x1), emit (Op k c1) s1)"
      using h by (simp add: on_secondary_def answer_def)
    have 2: "on_secondary E k (emit (Log (CantQuerySlave (slaveHost s1))) (emit (Op k c1) s1)) =
        (Inl (Throw x2), emit (Op k c2) s2)"
      using h by (simp add: on_secondary_def answer_def)
    have 3: "on_primary E fuel k (emit (Log (CantQuerySlave (slaveHost s2))) (emit (Op k c2) s2)) =
        Some (answer E k m s3, emit (Op k m) s3)"
      using h by (simp add: on_primary_def)
    show ?thesis
      unfolding u using h 1 2 3
      by (simp add: two_secondaries_then_primary_def emit_slaveHost)
  qed
  have F: "read_of k E fuel queryOptions s = Some (answer E k m s3, emit (Op k m) s3)"
    if "queryOptions AND QueryOption_SlaveOk E = 0 \<and> checkMaster E fuel s = Some (Inr m, s3)"
    unfolding u using that by (simp add: on_primary_def)
  have G: "op_calls (trace s') \<le>
        op_calls (trace s) + (if queryOptions AND QueryOption_SlaveOk E = 0 then 1 else 3)"
    if "read_of k E fuel queryOptions s = Some (r, s')"
    using that routed_read_op_calls [of E fuel k queryOptions s r s']
    unfolding read_of_routed by blast
  show ?thesis using A B C D F G by blast
qed

theorem slaveOk_read_routing_witness:
  "(4::int) AND QueryOption_SlaveOk flaky_env \<noteq> 0 \<and>
   (0::int) AND QueryOption_SlaveOk flaky_env = 0 \<and>
   map_option (\<lambda>(r, s'). (r, filter is_Op (trace s'), map ok (nodes s')))
     (query flaky_env 5 4 client_of_A) =
     Some (Inr (BObject [(''x'', BNumber 1)]), [Op Query 8, Op Query 9, Op Query 7],
           [True, False, True]) \<and>
   map_option (\<lambda>(r, s'). (r, filter is_Op (trace s'), map ok (nodes s')))
     (findOne flaky_env 5 4 client_of_A) =
     Some (Inr (BObject [(''x'', BNumber 1)]), [Op FindOne 8, Op FindOne 9, Op FindOne 7],
           [True, False, True]) \<and>
   map_option (\<lambda>(r, s'). (r, filter is_Op (trace s'))) (query flaky_env 5 0 client_of_A) =
     Some (Inr (BObject [(''x'', BNumber 1)]), [Op Query 7]) \<and>
   map_option (\<lambda>(r, s'). (r, filter is_Op (trace s'))) (findOne flaky_env 5 0 client_of_A) =
     Some (Inr (BObject [(''x'', BNumber 1)]), [Op FindOne 7]) \<and>
   map_option (\<lambda>(r, s'). (r, filter is_Op (trace s'))) (findOne quiet_env 5 4 client_of_A) =
     Some (Inr (BObject []), [Op FindOne 8]) \<and>
   query flaky_env 5 4 client_of_A = two_secondaries_then_primary flaky_env 5 Query client_of_A \<and>
   findOne flaky_env 5 4 client_of_A =
     two_secondaries_then_primary flaky_env 5 FindOne client_of_A \<and>
   findOne flaky_env 5 0 client_of_A = on_primary flaky_env 5 FindOne client_of_A \<and>
   map_option fst (findOne flaky_env 5 4 client_of_A) = Some (Inr (BObject [(''x'', BNumber 1)])) \<and>
   map_option fst (query flaky_env 5 0 client_of_A) = Some (Inr (BObject [(''x'', BNumber 1)])) \<and>
   map_option fst (findOne quiet_env 5 4 client_of_A) = Some (Inr (BObject [])) \<and>
   op_calls (trace (snd (the (findOne flaky_env 5 4 client_of_A)))) \<le>
     op_calls (trace client_of_A) + 3"
proof -
  have f4: "(4::int) AND QueryOption_SlaveOk flaky_env \<noteq> 0"
    by (simp add: flaky_env_def quiet_env_def)
  have q4: "(4::int) AND QueryOption_SlaveOk quiet_env \<noteq> 0"
    by (simp add: quiet_env_def)
  have f0: "(0::int) AND QueryOption_SlaveOk flaky_env = 0" by simp
  have e1: "query flaky_env 5 4 client_of_A =
      two_secondaries_then_primary flaky_env 5 Query client_of_A"
    and e2: "findOne flaky_env 5 4 client_of_A =
      two_secondaries_then_primary flaky_env 5 FindOne client_of_A"
    using slaveOk_read_routing [of 4 flaky_env 5 client_of_A] f4 by blast+
  have e3: "findOne flaky_env 5 0 client_of_A = on_primary flaky_env 5 FindOne client_of_A"
    using slaveOk_read_routing [of 0 flaky_env 5 client_of_A] f0 by blast
  let ?Q1 = "snd (checkSlave quiet_env client_of_A)"
  have c1: "checkSlave quiet_env client_of_A = (Inr (Some 8), ?Q1)" by code_simp
  have o1: "op_r quiet_env (now ?Q1) FindOne 8 = Inr (BObject [])" by (simp add: quiet_env_def)
  have p1: "read_of FindOne quiet_env 5 4 client_of_A =
      Some (Inr (BObject []), emit (Op FindOne 8) ?Q1)"
    using slaveOk_read_routing [where queryOptions = 4 and E = quiet_env and fuel = 5
        and s = client_of_A and ?c1.0 = 8 and ?s1.0 = ?Q1 and k = FindOne and v = "BObject []"]
      q4 c1 o1 by blast
  have w1: "map_option fst (findOne quiet_env 5 4 client_of_A) = Some (Inr (BObject []))"
    using p1 by simp
  let ?S1 = "snd (checkSlave flaky_env client_of_A)"
  let ?T1 = "emit (Log (CantQuerySlave (slaveHost ?S1))) (emit (Op FindOne 8) ?S1)"
  let ?S2 = "snd (checkSlave flaky_env ?T1)"
  let ?T2 = "emit (Log (CantQuerySlave (slaveHost ?S2))) (emit (Op FindOne 9) ?S2)"
  let ?S3 = "snd (the (checkMaster flaky_env 5 ?T2))"
  have d1: "checkSlave flaky_env client_of_A = (Inr (Some 8), ?S1)" by code_simp
  have d2: "op_r flaky_env (now ?S1) FindOne 8 = Inl SocketException \<and> isDBException SocketException"
    by (simp add: flaky_env_def)
  have d3: "checkSlave flaky_env ?T1 = (Inr (Some 9), ?S2)" by code_simp
  have d4: "op_r flaky_env (now ?S2) FindOne 9 = Inl SocketException"
    by (simp add: flaky_env_def)
  have d5: "checkMaster flaky_env 5 ?T2 = Some (Inr 7, ?S3)" by code_simp
  have p2: "read_of FindOne flaky_env 5 4 client_of_A =
      Some (answer flaky_env FindOne 7 ?S3, emit (Op FindOne 7) ?S3)"
    using slaveOk_read_routing [where queryOptions = 4 and E = flaky_env and fuel = 5
        and s = client_of_A and ?c1.0 = 8 and ?s1.0 = ?S1 and k = FindOne
        and ?x1.0 = SocketException and ?c2.0 = 9 and ?s2.0 = ?S2 and ?x2.0 = SocketException
        and m = 7 and ?s3.0 = ?S3]
      f4 d1 d2 d3 d4 d5 by blast
  have a2: "answer flaky_env FindOne 7 ?S3 = Inr (BObject [(''x'', BNumber 1)])"
    by (simp add: answer_def flaky_env_def)
  have w2: "map_option fst (findOne flaky_env 5 4 client_of_A) =
      Some (Inr (BObject [(''x'', BNumber 1)]))"
    using p2 a2 by simp
  let ?M = "snd (the (checkMaster flaky_env 5 client_of_A))"
  have m1: "checkMaster flaky_env 5 client_of_A = Some (Inr 7, ?M)" by code_simp
  have p3: "read_of Query flaky_env 5 0 client_of_A =
      Some (answer flaky_env Query 7 ?M, emit (Op Query 7) ?M)"
    using slaveOk_read_routing [where queryOptions = 0 and E = flaky_env and fuel = 5
        and s = client_of_A and k = Query and m = 7 and ?s3.0 = ?M]
      f0 m1 by blast
  have a3: "answer flaky_env Query 7 ?M = Inr (BObject [(''x'', BNumber 1)])"
    by (simp add: answer_def flaky_env_def)
  have w3: "map_option fst (query flaky_env 5 0 client_of_A) =
      Some (Inr (BObject [(''x'', BNumber 1)]))"
    using p3 a3 by simp
  let ?F = "findOne flaky_env 5 4 client_of_A"
  have s: "read_of FindOne flaky_env 5 4 client_of_A = Some (fst (the ?F), snd (the ?F))"
    unfolding p2 read_of.simps [symmetric] by simp
  have "op_calls (trace (snd (the ?F))) \<le>
      op_calls (trace client_of_A) + (if (4::int) AND QueryOption_SlaveOk flaky_env = 0 then 1 else 3)"
    using slaveOk_read_routing [where queryOptions = 4 and E = flaky_env and fuel = 5
        and s = client_of_A and k = FindOne and r = "fst (the ?F)" and s' = "snd (the ?F)"]
      s by blast
  then have w4: "op_calls (trace (snd (the ?F))) \<le> op_calls (trace client_of_A) + 3"
    using f4 by simp
  have r1: "map_option (\<lambda>(r, s'). (r, filter is_Op (trace s'), map ok (nodes s')))
     (query flaky_env 5 4 client_of_A) =
     Some (Inr (BObject [(''x'', BNumber 1)]), [Op Query 8, Op Query 9, Op Query 7],
           [True, False, True])"
    by code_simp
  have r2: "map_option (\<lambda>(r, s'). (r, filter is_Op (trace s'), map ok (nodes s')))
     (findOne flaky_env 5 4 client_of_A) =
     Some (Inr (BObject [(''x'', BNumber 1)]), [Op FindOne 8, Op FindOne 9, Op FindOne 7],
           [True, False, True])"
    by code_simp
  have r3: "map_option (\<lambda>(r, s'). (r, filter is_Op (trace s'))) (query flaky_env 5 0 client_of_A) =
     Some (Inr (BObject [(''x'', BNumber 1)]), [Op Query 7])"
    by code_simp
  have r4: "map_option (\<lambda>(r, s'). (r, filter is_Op (trace s'))) (findOne flaky_env 5 0 client_of_A) =
     Some (Inr (BObject [(''x'', BNumber 1)]), [Op FindOne 7])"
    by code_simp
  have r5: "map_option (\<lambda>(r, s'). (r, filter is_Op (trace s'))) (findOne quiet_env 5 4 client_of_A) =
     Some (Inr (BObject []), [Op FindOne 8])"
    by code_simp
  show ?thesis using f4 f0 e1 e2 e3 w1 w2 w3 w4 r1 r2 r3 r4 r5 by blast
qed

end
